theory Spec2Isabelle
  imports Main "HOL-Library.Log_Nat"
begin

section \<open>Python floating point: the progress arithmetic\<close>

text \<open>
  The engine computes progress as \<^verbatim>\<open>int((current_step / total_steps) * 100)\<close>. In Python
  \<^verbatim>\<open>/\<close> on two ints is true division: the quotient is the binary64 number nearest to
  the exact rational (ties to even); the product with 100 is rounded the same way, and
  \<^verbatim>\<open>int\<close> truncates toward zero. Binary64 values are modelled as the rationals they
  denote: \<open>fl\<close> rounds an exact rational to 53 significant bits. The exponent range is
  left unbounded; the quotients here lie between \<open>1 / total_steps\<close> and \<open>1\<close> and the
  products between \<open>0\<close> and \<open>100\<close>, far from overflow and from the subnormal range.
\<close>

definition binade :: "rat \<Rightarrow> int" where
  \<comment> \<open>for \<open>0 < x\<close>: the exponent \<open>e\<close> with \<open>2 powi e \<le> x < 2 powi (e + 1)\<close>\<close>
  "binade x = (if 1 \<le> x then bitlen \<lfloor>x\<rfloor> - 1 else - bitlen (\<lceil>1 / x\<rceil> - 1))"

definition round_half_even :: "rat \<Rightarrow> int" where
  "round_half_even y =
     (let f = \<lfloor>y\<rfloor>; r = y - of_int f
      in if r < 1 / 2 then f else if 1 / 2 < r then f + 1 else if even f then f else f + 1)"

definition ulp :: "rat \<Rightarrow> rat" where
  \<comment> \<open>the spacing of binary64 numbers in the binade of \<open>x\<close>\<close>
  "ulp x = 2 powi (binade x - 52)"

definition fl :: "rat \<Rightarrow> rat" where
  \<comment> \<open>round to the nearest binary64 number, ties to even\<close>
  "fl x = (if x = 0 then 0
           else sgn x * (of_int (round_half_even (\<bar>x\<bar> / ulp \<bar>x\<bar>)) * ulp \<bar>x\<bar>))"

definition py_int :: "rat \<Rightarrow> int" where
  \<comment> \<open>Python's \<^verbatim>\<open>int(x)\<close> on a float: truncation toward zero\<close>
  "py_int x = (if 0 \<le> x then \<lfloor>x\<rfloor> else \<lceil>x\<rceil>)"

definition percent :: "nat \<Rightarrow> nat \<Rightarrow> int" where
  \<comment> \<open>\<^verbatim>\<open>int((current_step / total_steps) * 100)\<close>\<close>
  "percent current_step total_steps =
     py_int (fl (fl (of_nat current_step / of_nat total_steps) * 100))"

section \<open>Data model\<close>

text \<open>
  Values passed to and from \<^verbatim>\<open>json.dumps\<close> / \<^verbatim>\<open>json.loads\<close>: the command parameters
  are dicts of strings, booleans and lists; the bridge's answer is any JSON value.
\<close>

datatype json =
    JNull
  | JBool bool
  | JStr string
  | JList "json list"
  | JDict "(string \<times> json) list"

text \<open>
  The only exception class the module raises itself is FastAPI's \<^verbatim>\<open>HTTPException\<close>, with a
  status code and a detail text. Every other exception (socket, codec, JSON) is caught inside
  the bridge before it can leave it; such an exception is represented by its text, the
  \<^verbatim>\<open>{e}\<close> of the source's f-strings.
\<close>

datatype exn = HTTPException nat string

text \<open>\<^verbatim>\<open>class PrototypeRequest(BaseModel)\<close>\<close>

record request =
  req_name :: string
  req_gameType :: string
  req_systems :: "string list"
  req_reference :: "string option"

text \<open>
  The dict built by \<^verbatim>\<open>create_prototype\<close>. A log line
  \<^verbatim>\<open>f"[{datetime.now().strftime('%H:%M:%S')}] text"\<close> is kept as the pair of its time stamp
  and its text; \<open>render_log\<close> gives the string the source stores.
\<close>

type_synonym log_line = "string \<times> string"

definition render_log :: "log_line \<Rightarrow> string" where
  "render_log l = ''['' @ fst l @ ''] '' @ snd l"

record job =
  job_id :: string
  name :: string
  gameType :: string
  systems :: "string list"
  reference :: "string option"
  status :: string
  createdAt :: string
  completedAt :: "string option"
  progress :: int
  logs :: "log_line list"

text \<open>\<^verbatim>\<open>class UnityBridge\<close>: the socket handle (none before the first connect) and the
  liveness flag. A handle is identified by the number of the event that created it.\<close>

record bridge =
  socket :: "nat option"
  connected :: bool

text \<open>An entry of \<^verbatim>\<open>SYSTEM_TEMPLATES\<close>.\<close>

record template =
  t_name :: string
  t_scripts :: "string list"
  t_prefabs :: "string list"
  t_ui :: "string list"

definition SYSTEM_TEMPLATES :: "(string \<times> template) list" where
  "SYSTEM_TEMPLATES =
    [(''health'', \<lparr>t_name = ''HealthSystem'',
        t_scripts = [''HealthSystem.cs'', ''IDamageable.cs''],
        t_prefabs = [], t_ui = [''HealthBar'']\<rparr>),
     (''mana'', \<lparr>t_name = ''ManaSystem'',
        t_scripts = [''ManaSystem.cs'', ''IResource.cs''],
        t_prefabs = [], t_ui = [''ManaBar'']\<rparr>),
     (''inventory'', \<lparr>t_name = ''InventorySystem'',
        t_scripts = [''InventorySystem.cs'', ''InventorySlot.cs'', ''ItemSO.cs''],
        t_prefabs = [''InventoryUI''], t_ui = [''InventoryPanel'']\<rparr>),
     (''equipment'', \<lparr>t_name = ''EquipmentSystem'',
        t_scripts = [''EquipmentManager.cs'', ''EquipSlot.cs''],
        t_prefabs = [], t_ui = []\<rparr>),
     (''combat-melee'', \<lparr>t_name = ''MeleeCombat'',
        t_scripts = [''MeleeCombat.cs'', ''AttackData.cs'', ''Hitbox.cs''],
        t_prefabs = [''HitboxPrefab''], t_ui = []\<rparr>),
     (''combat-ranged'', \<lparr>t_name = ''RangedCombat'',
        t_scripts = [''RangedCombat.cs'', ''Projectile.cs''],
        t_prefabs = [''ProjectilePrefab''], t_ui = []\<rparr>),
     (''ai-fsm'', \<lparr>t_name = ''AIStateMachine'',
        t_scripts = [''AIStateMachine.cs'', ''AIState.cs'', ''IdleState.cs'',
                     ''ChaseState.cs'', ''AttackState.cs''],
        t_prefabs = [], t_ui = []\<rparr>),
     (''ai-patrol'', \<lparr>t_name = ''PatrolSystem'',
        t_scripts = [''PatrolSystem.cs'', ''Waypoint.cs''],
        t_prefabs = [''WaypointPrefab''], t_ui = []\<rparr>),
     (''dialogue'', \<lparr>t_name = ''DialogueSystem'',
        t_scripts = [''DialogueSystem.cs'', ''DialogueSO.cs'', ''DialogueUI.cs''],
        t_prefabs = [''DialoguePanel''], t_ui = [''DialogueBox'']\<rparr>),
     (''quest'', \<lparr>t_name = ''QuestSystem'',
        t_scripts = [''QuestSystem.cs'', ''Quest.cs'', ''QuestObjective.cs''],
        t_prefabs = [], t_ui = [''QuestTracker'']\<rparr>),
     (''save-load'', \<lparr>t_name = ''SaveLoadSystem'',
        t_scripts = [''SaveManager.cs'', ''ISaveable.cs'', ''SaveData.cs''],
        t_prefabs = [], t_ui = []\<rparr>)]"

section \<open>The environment\<close>

text \<open>
  Everything the module does not decide itself is read from an environment: what the network
  does at each transport event, what the clock shows at each reading, the identifier
  \<^verbatim>\<open>uuid.uuid4\<close> draws, what the other tasks of the event loop have done to the shared
  bridge while this task was suspended in \<^verbatim>\<open>asyncio.sleep\<close>, and the library functions
  (\<^verbatim>\<open>json.dumps\<close>, \<^verbatim>\<open>json.loads\<close>, \<^verbatim>\<open>str.strip\<close>, \<^verbatim>\<open>str.lower\<close>, \<^verbatim>\<open>str(e)\<close>).
  Transport and scheduler events are numbered by \<open>tick\<close>, clock readings by \<open>reads\<close>.
  The theorems hold for every environment.
\<close>

datatype conn_outcome =
    ConnOk
  | SocketError string    \<comment> \<open>\<^verbatim>\<open>socket.socket(...)\<close> raised: no new handle\<close>
  | ConnectError string   \<comment> \<open>\<^verbatim>\<open>settimeout\<close> or \<^verbatim>\<open>connect\<close> raised on the new handle\<close>

record env =
  connect_outcome :: "nat \<Rightarrow> conn_outcome"
  send_outcome :: "nat \<Rightarrow> string option"      \<comment> \<open>\<open>Some e\<close>: \<^verbatim>\<open>socket.send\<close> raised \<open>e\<close>\<close>
  recv_outcome :: "nat \<Rightarrow> string + string"    \<comment> \<open>\<open>Inl e\<close>: \<^verbatim>\<open>recv\<close> or \<^verbatim>\<open>decode\<close> raised \<open>e\<close>;
                                                   \<open>Inr chunk\<close>: the decoded chunk\<close>
  interference :: "nat \<Rightarrow> bridge \<Rightarrow> bridge"   \<comment> \<open>the shared bridge after a suspension\<close>
  clock_hms :: "nat \<Rightarrow> string"                \<comment> \<open>\<^verbatim>\<open>datetime.now().strftime('%H:%M:%S')\<close>\<close>
  clock_iso :: "nat \<Rightarrow> string"                \<comment> \<open>\<^verbatim>\<open>datetime.now().isoformat()\<close>\<close>
  uuid4 :: "nat \<Rightarrow> string"                    \<comment> \<open>\<^verbatim>\<open>str(uuid.uuid4())\<close>\<close>
  json_dumps :: "json \<Rightarrow> string"
  json_loads :: "string \<Rightarrow> string + json"     \<comment> \<open>\<open>Inl e\<close>: the parser raised \<open>e\<close>\<close>
  str_strip :: "string \<Rightarrow> string"
  str_lower :: "string \<Rightarrow> string"
  exn_str :: "exn \<Rightarrow> string"                  \<comment> \<open>\<^verbatim>\<open>str(e)\<close> of an \<^verbatim>\<open>HTTPException\<close>\<close>

section \<open>The state of one engine task\<close>

text \<open>
  A task of \<^verbatim>\<open>generate_prototype\<close> works on the job dict it fetched from
  \<^verbatim>\<open>prototypes_db\<close> and on the module-level \<^verbatim>\<open>unity_bridge\<close>. Besides these the state
  carries five history variables, which no program variable reads: the outcomes of the
  connects attempted, the calls of \<^verbatim>\<open>send_command\<close> the task made (command, parameters and
  the exception the call raised, if any), the request lines handed to \<^verbatim>\<open>socket.send\<close>, and
  the values assigned to the job's \<^verbatim>\<open>progress\<close> and \<^verbatim>\<open>status\<close>, each in program order.
\<close>

record state =
  prototype :: job
  unity_bridge :: bridge
  tick :: nat
  reads :: nat
  connects :: "conn_outcome list"
  calls :: "(string \<times> json \<times> exn option) list"
  written :: "string list"
  progress_writes :: "int list"
  status_writes :: "string list"

definition set_status :: "string \<Rightarrow> state \<Rightarrow> state" where
  \<comment> \<open>\<^verbatim>\<open>prototype["status"] = v\<close>\<close>
  "set_status v s =
     s\<lparr>prototype := (prototype s)\<lparr>status := v\<rparr>, status_writes := status_writes s @ [v]\<rparr>"

definition set_progress :: "int \<Rightarrow> state \<Rightarrow> state" where
  \<comment> \<open>\<^verbatim>\<open>prototype["progress"] = v\<close>\<close>
  "set_progress v s =
     s\<lparr>prototype := (prototype s)\<lparr>progress := v\<rparr>, progress_writes := progress_writes s @ [v]\<rparr>"

definition set_completedAt :: "env \<Rightarrow> state \<Rightarrow> state" where
  \<comment> \<open>\<^verbatim>\<open>prototype["completedAt"] = datetime.now().isoformat()\<close>\<close>
  "set_completedAt env s =
     s\<lparr>prototype := (prototype s)\<lparr>completedAt := Some (clock_iso env (reads s))\<rparr>,
       reads := Suc (reads s)\<rparr>"

definition append_log :: "env \<Rightarrow> string \<Rightarrow> state \<Rightarrow> state" where
  \<comment> \<open>\<^verbatim>\<open>prototype["logs"].append(f"[{datetime.now().strftime('%H:%M:%S')}] text")\<close>\<close>
  "append_log env text s =
     s\<lparr>prototype := (prototype s)\<lparr>logs := logs (prototype s) @ [(clock_hms env (reads s), text)]\<rparr>,
       reads := Suc (reads s)\<rparr>"

definition asyncio_sleep :: "env \<Rightarrow> state \<Rightarrow> state" where
  \<comment> \<open>\<^verbatim>\<open>await asyncio.sleep(0.5)\<close>: the task is suspended and other tasks run; they share
     the bridge, not this job\<close>
  "asyncio_sleep env s =
     s\<lparr>unity_bridge := interference env (tick s) (unity_bridge s), tick := Suc (tick s)\<rparr>"

section \<open>UnityBridge\<close>

definition connect :: "env \<Rightarrow> state \<Rightarrow> bool \<times> state" where
  "connect env s =
     (let s' = s\<lparr>tick := Suc (tick s),
                  connects := connects s @ [connect_outcome env (tick s)]\<rparr>
      in case connect_outcome env (tick s) of
           ConnOk \<Rightarrow>
             (True, s'\<lparr>unity_bridge := \<lparr>socket = Some (tick s), connected = True\<rparr>\<rparr>)
         | SocketError e \<Rightarrow>
             (False, s'\<lparr>unity_bridge := (unity_bridge s)\<lparr>connected := False\<rparr>\<rparr>)
         | ConnectError e \<Rightarrow>
             (False, s'\<lparr>unity_bridge := \<lparr>socket = Some (tick s), connected = False\<rparr>\<rparr>))"

definition endswith_newline :: "string \<Rightarrow> bool" where
  \<comment> \<open>\<^verbatim>\<open>response.endswith("\n")\<close>\<close>
  "endswith_newline response = (response \<noteq> [] \<and> last response = CHR 0x0A)"

text \<open>
  The read loop of \<^verbatim>\<open>send_command\<close>. It has no bound of its own: an endpoint that keeps
  sending chunks, none ending in a line feed, keeps it running; then it has no result.
\<close>

partial_function (option) recv_loop ::
  "env \<Rightarrow> string \<Rightarrow> state \<Rightarrow> ((string + string) \<times> state) option" where
  "recv_loop env response s =
     (if endswith_newline response then Some (Inr response, s)
      else case recv_outcome env (tick s) of
             Inl e \<Rightarrow> Some (Inl e, s\<lparr>tick := Suc (tick s)\<rparr>)
           | Inr chunk \<Rightarrow>
               if chunk = [] then Some (Inr response, s\<lparr>tick := Suc (tick s)\<rparr>)
               else recv_loop env (response @ chunk) (s\<lparr>tick := Suc (tick s)\<rparr>))"

declare recv_loop.simps [code]

definition none_has_no_send :: string where
  \<comment> \<open>the text of the \<^verbatim>\<open>AttributeError\<close> of \<^verbatim>\<open>None.send\<close>\<close>
  "none_has_no_send =
     [CHR 0x27] @ ''NoneType'' @ [CHR 0x27] @ '' object has no attribute ''
       @ [CHR 0x27] @ ''send'' @ [CHR 0x27]"

definition exchange ::
  "env \<Rightarrow> string \<Rightarrow> json \<Rightarrow> state \<Rightarrow> ((string + json) \<times> state) option" where
  \<comment> \<open>the \<^verbatim>\<open>try\<close> block of \<^verbatim>\<open>send_command\<close>; \<open>Inl e\<close>: it raised \<open>e\<close>\<close>
  "exchange env command params s =
     (let request = json_dumps env (JDict [(''command'', JStr command), (''params'', params)])
                      @ [CHR 0x0A]
      in case socket (unity_bridge s) of
           None \<Rightarrow> Some (Inl none_has_no_send, s)
         | Some h \<Rightarrow>
             (let s1 = s\<lparr>tick := Suc (tick s), written := written s @ [request]\<rparr>
              in case send_outcome env (tick s) of
                   Some e \<Rightarrow> Some (Inl e, s1)
                 | None \<Rightarrow>
                     (case recv_loop env [] s1 of
                        None \<Rightarrow> None
                      | Some (Inl e, s2) \<Rightarrow> Some (Inl e, s2)
                      | Some (Inr response, s2) \<Rightarrow>
                          (case json_loads env (str_strip env response) of
                             Inl e \<Rightarrow> Some (Inl e, s2)
                           | Inr v \<Rightarrow> Some (Inr v, s2)))))"

definition ensure_connected :: "env \<Rightarrow> state \<Rightarrow> state" where
  \<comment> \<open>\<^verbatim>\<open>if not self.connected: await self.connect()\<close>\<close>
  "ensure_connected env s =
     (if \<not> connected (unity_bridge s) then snd (connect env s) else s)"

definition send_command ::
  "env \<Rightarrow> string \<Rightarrow> json \<Rightarrow> state \<Rightarrow> ((exn + json) \<times> state) option" where
  "send_command env command params s =
     (let s1 = ensure_connected env s
      in if \<not> connected (unity_bridge s1)
         then Some (Inl (HTTPException 503 ''Unity Bridge baglantisi yok''), s1)
         else case exchange env command params s1 of
                None \<Rightarrow> None
              | Some (Inr v, s2) \<Rightarrow> Some (Inr v, s2)
              | Some (Inl e, s2) \<Rightarrow>
                  Some (Inl (HTTPException 500 (''Unity komut hatasi: '' @ e)),
                        s2\<lparr>unity_bridge := (unity_bridge s2)\<lparr>connected := False\<rparr>\<rparr>))"

section \<open>The generation engine\<close>

definition await_send_command ::
  "env \<Rightarrow> string \<Rightarrow> json \<Rightarrow> state \<Rightarrow> ((exn + json) \<times> state) option" where
  \<comment> \<open>\<^verbatim>\<open>await unity_bridge.send_command(command, params)\<close> in the engine: the call, entered
     in the history of calls when it returns or raises\<close>
  "await_send_command env command params s =
     (case send_command env command params s of
        None \<Rightarrow> None
      | Some (Inl e, s1) \<Rightarrow> Some (Inl e, s1\<lparr>calls := calls s1 @ [(command, params, Some e)]\<rparr>)
      | Some (Inr v, s1) \<Rightarrow> Some (Inr v, s1\<lparr>calls := calls s1 @ [(command, params, None)]\<rparr>))"

definition known :: "string \<Rightarrow> bool" where
  \<comment> \<open>\<^verbatim>\<open>system_id in SYSTEM_TEMPLATES\<close>\<close>
  "known system_id = (map_of SYSTEM_TEMPLATES system_id \<noteq> None)"

definition resolved_names :: "string list \<Rightarrow> json" where
  \<comment> \<open>\<^verbatim>\<open>[SYSTEM_TEMPLATES[s]["name"] for s in prototype["systems"] if s in SYSTEM_TEMPLATES]\<close>\<close>
  "resolved_names syss =
     JList (concat (map (\<lambda>s. case map_of SYSTEM_TEMPLATES s of
                                None \<Rightarrow> [] | Some t \<Rightarrow> [JStr (t_name t)]) syss))"

fun contains :: "string \<Rightarrow> string \<Rightarrow> bool" where
  \<comment> \<open>\<open>contains sub str\<close> is Python's \<^verbatim>\<open>sub in str\<close>\<close>
  "contains sub [] = (sub = [])"
| "contains sub (c # cs) = (take (length sub) (c # cs) = sub \<or> contains sub cs)"

definition scene_params :: json where
  "scene_params =
     JDict [(''structure'',
       JList [JStr ''--- MANAGERS ---'', JStr ''--- PLAYER ---'', JStr ''--- ENEMIES ---'',
              JStr ''--- ENVIRONMENT ---'', JStr ''--- UI ---''])]"

definition import_params :: "job \<Rightarrow> string \<Rightarrow> template \<Rightarrow> json" where
  "import_params j system_id t =
     JDict [(''systemId'', JStr system_id),
            (''systemPath'', JStr (''Core/'' @ t_name t)),
            (''targetPath'', JStr (''Assets/_Prototype_'' @ name j @ ''/Scripts''))]"

definition player_params :: "env \<Rightarrow> job \<Rightarrow> json" where
  "player_params env j =
     JDict [(''playerType'',
               JStr (if contains ''3d'' (str_lower env (gameType j)) then ''3D'' else ''2D'')),
            (''systems'', resolved_names (systems j)),
            (''createModel'', JBool True)]"

definition ui_params :: "job \<Rightarrow> json" where
  "ui_params j =
     JDict [(''systems'', resolved_names (systems j)), (''uiStyle'', JStr ''Minimal'')]"

definition system_step ::
  "env \<Rightarrow> nat \<Rightarrow> string \<Rightarrow> nat \<Rightarrow> state \<Rightarrow> ((exn + nat) \<times> state) option" where
  \<comment> \<open>one pass through the body of \<^verbatim>\<open>for system_id in prototype["systems"]\<close>; the result
     is the new \<^verbatim>\<open>current_step\<close>\<close>
  "system_step env total_steps system_id current_step s =
     (case map_of SYSTEM_TEMPLATES system_id of
        Some t \<Rightarrow>
          (let s1 = append_log env (t_name t @ '' ekleniyor...'') s
           in case await_send_command env ''ImportVaultSystem''
                     (import_params (prototype s1) system_id t) s1 of
                None \<Rightarrow> None
              | Some (Inl e, s2) \<Rightarrow> Some (Inl e, s2)
              | Some (Inr v, s2) \<Rightarrow>
                  Some (Inr (current_step + 1),
                        set_progress (percent (current_step + 1) total_steps)
                          (asyncio_sleep env s2)))
      | None \<Rightarrow>
          Some (Inr (current_step + 1),
                set_progress (percent (current_step + 1) total_steps) s))"

fun systems_loop ::
  "env \<Rightarrow> nat \<Rightarrow> string list \<Rightarrow> nat \<Rightarrow> state \<Rightarrow> ((exn + nat) \<times> state) option" where
  "systems_loop env total_steps [] current_step s = Some (Inr current_step, s)"
| "systems_loop env total_steps (system_id # rest) current_step s =
     (case system_step env total_steps system_id current_step s of
        None \<Rightarrow> None
      | Some (Inl e, s1) \<Rightarrow> Some (Inl e, s1)
      | Some (Inr current_step1, s1) \<Rightarrow> systems_loop env total_steps rest current_step1 s1)"

definition simulate_step :: "env \<Rightarrow> nat \<Rightarrow> state \<Rightarrow> nat \<Rightarrow> state" where
  \<comment> \<open>one pass through the body of \<^verbatim>\<open>for i in range(total_steps)\<close>\<close>
  "simulate_step env total_steps s i =
     (let s1 = set_progress (percent (i + 1) total_steps) (asyncio_sleep env s);
          syss = systems (prototype s1)
      in if i = 0 then append_log env ''Scene olusturuluyor (simule)...'' s1
         else if i < length syss + 1 then
           (let system_idx = i - 1
            in if system_idx < length syss
               then append_log env (syss ! system_idx @ '' ekleniyor (simule)...'') s1
               else s1)
         else if i = total_steps - 2 then append_log env ''Player olusturuluyor (simule)...'' s1
         else append_log env ''UI olusturuluyor (simule)...'' s1)"

definition simulate_generation :: "env \<Rightarrow> state \<Rightarrow> state" where
  "simulate_generation env s =
     (let total_steps = length (systems (prototype s)) + 3;
          s1 = foldl (simulate_step env total_steps) s [0..<total_steps]
      in append_log env ''Tamamlandi (simule)!''
           (set_completedAt env (set_status ''completed'' s1)))"

definition finish_steps :: "env \<Rightarrow> nat \<Rightarrow> nat \<Rightarrow> state \<Rightarrow> ((exn + unit) \<times> state) option" where
  \<comment> \<open>sections 4 and 5 of the \<^verbatim>\<open>try\<close> block and its end: player, UI, completion\<close>
  "finish_steps env total_steps current_step s =
     (let s1 = append_log env ''Player olusturuluyor...'' s
      in case await_send_command env ''SetupPlayer'' (player_params env (prototype s1)) s1 of
           None \<Rightarrow> None
         | Some (Inl e, s2) \<Rightarrow> Some (Inl e, s2)
         | Some (Inr v, s2) \<Rightarrow>
             (let s3 = set_progress (percent (current_step + 1) total_steps) s2;
                  s4 = append_log env ''UI olusturuluyor...'' s3
              in case await_send_command env ''SetupGameUI'' (ui_params (prototype s4)) s4 of
                   None \<Rightarrow> None
                 | Some (Inl e, s5) \<Rightarrow> Some (Inl e, s5)
                 | Some (Inr v, s5) \<Rightarrow>
                     Some (Inr (),
                           append_log env ''Tamamlandi!''
                             (set_completedAt env
                               (set_status ''completed'' (set_progress 100 s5))))))"

definition bridge_steps :: "env \<Rightarrow> state \<Rightarrow> ((exn + unit) \<times> state) option" where
  \<comment> \<open>the \<^verbatim>\<open>try\<close> block after a successful connect\<close>
  "bridge_steps env s =
     (let total_steps = length (systems (prototype s)) + 3;
          current_step = 0;
          s1 = append_log env ''Scene olusturuluyor...'' s
      in case await_send_command env ''SetupSceneStructure'' scene_params s1 of
           None \<Rightarrow> None
         | Some (Inl e, s2) \<Rightarrow> Some (Inl e, s2)
         | Some (Inr v, s2) \<Rightarrow>
             (let s3 = set_progress (percent (current_step + 1) total_steps) s2
              in case systems_loop env total_steps (systems (prototype s3))
                        (current_step + 1) s3 of
                   None \<Rightarrow> None
                 | Some (Inl e, s4) \<Rightarrow> Some (Inl e, s4)
                 | Some (Inr current_step1, s4) \<Rightarrow>
                     finish_steps env total_steps current_step1 s4))"

definition try_block :: "env \<Rightarrow> state \<Rightarrow> ((exn + unit) \<times> state) option" where
  \<comment> \<open>the \<^verbatim>\<open>try\<close> block of \<^verbatim>\<open>generate_prototype\<close>; \<open>Inl e\<close>: it raised \<open>e\<close>\<close>
  "try_block env s =
     (case connect env s of
        (False, s1) \<Rightarrow> Some (Inr (), simulate_generation env s1)
      | (True, s1) \<Rightarrow> bridge_steps env s1)"

definition generate :: "env \<Rightarrow> state \<Rightarrow> state option" where
  \<comment> \<open>\<^verbatim>\<open>generate_prototype\<close> from its second line on, on the job dict it fetched\<close>
  "generate env s =
     (case try_block env (append_log env ''Basladi'' (set_status ''generating'' s)) of
        None \<Rightarrow> None
      | Some (Inr u, s1) \<Rightarrow> Some s1
      | Some (Inl e, s1) \<Rightarrow>
          Some (append_log env (''HATA: '' @ exn_str env e) (set_status ''failed'' s1)))"


section \<open>The job store and the endpoints\<close>

text \<open>
  The module-level state: \<^verbatim>\<open>prototypes_db\<close>, the shared \<^verbatim>\<open>unity_bridge\<close>, and the engine
  tasks that \<^verbatim>\<open>asyncio.create_task\<close> has scheduled and the event loop has not started yet.
\<close>

record system =
  prototypes_db :: "string \<rightharpoonup> job"
  tasks :: "string list"
  shared_bridge :: bridge
  ticks :: nat
  clock_reads :: nat

definition create_prototype :: "env \<Rightarrow> request \<Rightarrow> system \<Rightarrow> job \<times> system" where
  "create_prototype env request sys =
     (let prototype_id = take 8 (uuid4 env (ticks sys));
          p = \<lparr>job_id = prototype_id,
                       name = req_name request,
                       gameType = req_gameType request,
                       systems = req_systems request,
                       reference = req_reference request,
                       status = ''queued'',
                       createdAt = clock_iso env (clock_reads sys),
                       completedAt = None,
                       progress = 0,
                       logs = []\<rparr>
      in (p,
          sys\<lparr>prototypes_db := (prototypes_db sys)(prototype_id \<mapsto> p),
              tasks := tasks sys @ [prototype_id],
              ticks := Suc (ticks sys),
              clock_reads := Suc (clock_reads sys)\<rparr>))"

definition get_prototype :: "string \<Rightarrow> system \<Rightarrow> exn + job" where
  "get_prototype prototype_id sys =
     (case prototypes_db sys prototype_id of
        None \<Rightarrow> Inl (HTTPException 404 ''Prototip bulunamadi'')
      | Some p \<Rightarrow> Inr p)"

definition task_state :: "system \<Rightarrow> job \<Rightarrow> state" where
  \<comment> \<open>the state a task starts in: the job it fetched, the shared bridge, empty histories\<close>
  "task_state sys p =
     \<lparr>prototype = p, unity_bridge = shared_bridge sys, tick = ticks sys,
      reads = clock_reads sys, connects = [], calls = [], written = [],
      progress_writes = [], status_writes = []\<rparr>"

definition generate_prototype :: "env \<Rightarrow> string \<Rightarrow> system \<Rightarrow> system option" where
  \<comment> \<open>the whole task: \<^verbatim>\<open>prototype = prototypes_db[prototype_id]\<close> (a \<^verbatim>\<open>KeyError\<close> ends the
     task), then the run on that dict, whose mutations the store sees\<close>
  "generate_prototype env prototype_id sys =
     (case prototypes_db sys prototype_id of
        None \<Rightarrow> Some sys
      | Some p \<Rightarrow>
          (case generate env (task_state sys p) of
             None \<Rightarrow> None
           | Some s \<Rightarrow>
               Some (sys\<lparr>prototypes_db := (prototypes_db sys)(prototype_id \<mapsto> prototype s),
                        shared_bridge := unity_bridge s,
                        ticks := tick s,
                        clock_reads := reads s\<rparr>)))"

text \<open>
  What the event loop can do next: serve a request of one of the endpoints, or start the
  oldest scheduled engine task. A task is run to its end in one step; what other tasks would
  do in between reaches it through \<open>interference\<close>.
\<close>

datatype operation =
    PostPrototype request     \<comment> \<open>\<^verbatim>\<open>POST /api/prototypes\<close>\<close>
  | GetPrototype string       \<comment> \<open>\<^verbatim>\<open>GET /api/prototypes/{prototype_id}\<close>\<close>
  | ListPrototypes            \<comment> \<open>\<^verbatim>\<open>GET /api/prototypes\<close>\<close>
  | HealthCheck               \<comment> \<open>\<^verbatim>\<open>GET /api/health\<close>\<close>
  | GetTemplates              \<comment> \<open>\<^verbatim>\<open>GET /api/templates\<close>\<close>
  | RunTask                   \<comment> \<open>the event loop starts the oldest scheduled task\<close>

definition perform :: "env \<Rightarrow> operation \<Rightarrow> system \<Rightarrow> system option" where
  "perform env op sys =
     (case op of
        PostPrototype request \<Rightarrow> Some (snd (create_prototype env request sys))
      | RunTask \<Rightarrow>
          (case tasks sys of
             [] \<Rightarrow> Some sys
           | prototype_id # rest \<Rightarrow> generate_prototype env prototype_id (sys\<lparr>tasks := rest\<rparr>))
      | _ \<Rightarrow> Some sys)"

definition fresh_id :: "env \<Rightarrow> operation \<Rightarrow> system \<Rightarrow> bool" where
  \<comment> \<open>the identifier a submission draws is not in use: the uniqueness the data model assumes
     of \<^verbatim>\<open>uuid4\<close>, which \<^verbatim>\<open>create_prototype\<close> does not check\<close>
  "fresh_id env op sys =
     (case op of
        PostPrototype request \<Rightarrow> prototypes_db sys (take 8 (uuid4 env (ticks sys))) = None
      | _ \<Rightarrow> True)"

definition initial_system :: system where
  "initial_system =
     \<lparr>prototypes_db = Map.empty, tasks = [],
      shared_bridge = \<lparr>socket = None, connected = False\<rparr>, ticks = 0, clock_reads = 0\<rparr>"

fun run_ops :: "env \<Rightarrow> operation list \<Rightarrow> system \<Rightarrow> system option" where
  \<comment> \<open>a history of the service; \<open>None\<close>: an identifier collided or a task did not return\<close>
  "run_ops env [] sys = Some sys"
| "run_ops env (op # ops) sys =
     (if fresh_id env op sys
      then case perform env op sys of None \<Rightarrow> None | Some sys1 \<Rightarrow> run_ops env ops sys1
      else None)"

definition terminal :: "string \<Rightarrow> bool" where
  \<comment> \<open>\<^verbatim>\<open>prototype["status"] in ["completed", "failed"]\<close>\<close>
  "terminal st = (st = ''completed'' \<or> st = ''failed'')"

section \<open>The progress publisher\<close>

text \<open>
  \<^verbatim>\<open>websocket_progress\<close> polls the store between suspensions, while engine tasks run. What
  it finds at its \<open>n\<close>-th poll is \<open>store n\<close>; whether the \<open>n\<close>-th \<^verbatim>\<open>send_json\<close> raises
  (the subscriber has gone) is \<open>send_fails n\<close>. The result is the sequence of frames on the
  socket. The loop ends only by a terminal snapshot, a failed send or a missing key.
\<close>

record snapshot =
  snap_progress :: int
  snap_status :: string
  snap_logs :: "log_line list"

datatype frame =
    Accept
  | SendJson snapshot
  | Close nat     \<comment> \<open>the close code; \<^verbatim>\<open>websocket.close()\<close> sends 1000\<close>

definition snapshot_of :: "job \<Rightarrow> snapshot" where
  \<comment> \<open>\<^verbatim>\<open>{"progress": ..., "status": ..., "logs": prototype["logs"][-5:]}\<close>\<close>
  "snapshot_of j =
     \<lparr>snap_progress = progress j, snap_status = status j,
      snap_logs = drop (length (logs j) - 5) (logs j)\<rparr>"

partial_function (option) progress_loop ::
  "(nat \<Rightarrow> string \<rightharpoonup> job) \<Rightarrow> (nat \<Rightarrow> bool) \<Rightarrow> string \<Rightarrow> nat \<Rightarrow> frame list
     \<Rightarrow> frame list option" where
  "progress_loop store send_fails prototype_id n out =
     (case store n prototype_id of
        None \<Rightarrow> Some (out @ [Close 1000])
      | Some p \<Rightarrow>
          if send_fails n then Some (out @ [Close 1000])
          else if terminal (status p)
            then Some (out @ [SendJson (snapshot_of p), Close 1000])
            else progress_loop store send_fails prototype_id (Suc n)
                   (out @ [SendJson (snapshot_of p)]))"

declare progress_loop.simps [code]

definition websocket_progress ::
  "(nat \<Rightarrow> string \<rightharpoonup> job) \<Rightarrow> (nat \<Rightarrow> bool) \<Rightarrow> string \<Rightarrow> frame list option" where
  "websocket_progress store send_fails prototype_id =
     (if store 0 prototype_id = None then Some [Accept, Close 4004]
      else progress_loop store send_fails prototype_id 0 [Accept])"


section \<open>What a run is expected to leave behind\<close>

text \<open>
  The statements below compare the histories of a run with the step sequence of the
  specification: scene setup, one step per requested system, player setup, UI setup. These
  definitions spell that sequence out, step by step: the log texts and the bridge calls each
  step contributes on the bridge path, and the log texts on the simulated path.
\<close>

definition log_texts :: "job \<Rightarrow> string list" where
  "log_texts j = map snd (logs j)"

definition same_request :: "job \<Rightarrow> job \<Rightarrow> bool" where
  \<comment> \<open>the fields copied from the request, the identifier and the creation time agree\<close>
  "same_request j j' \<longleftrightarrow>
     job_id j' = job_id j \<and> name j' = name j \<and> gameType j' = gameType j \<and>
     systems j' = systems j \<and> reference j' = reference j \<and> createdAt j' = createdAt j"

definition system_log :: "string \<Rightarrow> string list" where
  "system_log system_id =
     (case map_of SYSTEM_TEMPLATES system_id of
        None \<Rightarrow> [] | Some t \<Rightarrow> [t_name t @ '' ekleniyor...''])"

definition system_call :: "job \<Rightarrow> string \<Rightarrow> (string \<times> json) list" where
  "system_call j system_id =
     (case map_of SYSTEM_TEMPLATES system_id of
        None \<Rightarrow> [] | Some t \<Rightarrow> [(''ImportVaultSystem'', import_params j system_id t)])"

definition bridge_step_logs :: "string list \<Rightarrow> string list list" where
  "bridge_step_logs syss =
     [[''Scene olusturuluyor...'']] @ map system_log syss
       @ [[''Player olusturuluyor...''], [''UI olusturuluyor...'']]"

definition bridge_step_calls :: "env \<Rightarrow> job \<Rightarrow> (string \<times> json) list list" where
  "bridge_step_calls env j =
     [[(''SetupSceneStructure'', scene_params)]] @ map (system_call j) (systems j)
       @ [[(''SetupPlayer'', player_params env j)], [(''SetupGameUI'', ui_params j)]]"

definition simulated_step_logs :: "string list \<Rightarrow> string list list" where
  "simulated_step_logs syss =
     [[''Scene olusturuluyor (simule)...'']]
       @ map (\<lambda>system_id. [system_id @ '' ekleniyor (simule)...'']) syss
       @ [[''Player olusturuluyor (simule)...''], [''UI olusturuluyor (simule)...'']]"

definition progress_after :: "nat \<Rightarrow> nat \<Rightarrow> int list" where
  \<comment> \<open>the values the first \<open>k\<close> steps assign to the progress, of \<open>total_steps\<close> steps\<close>
  "progress_after total_steps k = map (\<lambda>i. percent i total_steps) [1..<k + 1]"

definition returned :: "string \<times> json \<Rightarrow> string \<times> json \<times> exn option" where
  "returned c = (fst c, snd c, None)"

definition raised :: "exn \<Rightarrow> string \<times> json \<Rightarrow> string \<times> json \<times> exn option" where
  "raised e c = (fst c, snd c, Some e)"

definition effect ::
  "state \<Rightarrow> state \<Rightarrow> int list \<Rightarrow> string list \<Rightarrow> (string \<times> json \<times> exn option) list \<Rightarrow> bool" where
  \<comment> \<open>from \<open>s\<close> to \<open>s'\<close> the job's progress was assigned the values \<open>ws\<close>, the texts \<open>ts\<close>
     were logged and the calls \<open>cs\<close> made, and nothing else of the job changed\<close>
  "effect s s' ws ts cs \<longleftrightarrow>
     progress_writes s' = progress_writes s @ ws \<and>
     progress (prototype s') = last (progress (prototype s) # ws) \<and>
     log_texts (prototype s') = log_texts (prototype s) @ ts \<and>
     calls s' = calls s @ cs \<and>
     status_writes s' = status_writes s \<and>
     status (prototype s') = status (prototype s) \<and>
     completedAt (prototype s') = completedAt (prototype s) \<and>
     same_request (prototype s) (prototype s')"

definition bridge_exn :: "exn \<Rightarrow> bool" where
  \<comment> \<open>the two exceptions \<^verbatim>\<open>send_command\<close> raises\<close>
  "bridge_exn e \<longleftrightarrow>
     e = HTTPException 503 ''Unity Bridge baglantisi yok'' \<or>
     (\<exists>cause. e = HTTPException 500 (''Unity komut hatasi: '' @ cause))"

definition finished :: "state \<Rightarrow> state \<Rightarrow> bool" where
  \<comment> \<open>the run from \<open>s\<close> to \<open>s'\<close> ended in \<open>completed\<close>\<close>
  "finished s s' \<longleftrightarrow>
     progress (prototype s') = 100 \<and>
     status_writes s' = status_writes s @ [''generating'', ''completed''] \<and>
     status (prototype s') = ''completed'' \<and>
     completedAt (prototype s') \<noteq> None \<and>
     same_request (prototype s) (prototype s')"

definition simulated_run :: "state \<Rightarrow> state \<Rightarrow> bool" where
  "simulated_run s s' \<longleftrightarrow>
     finished s s' \<and>
     progress_writes s' =
       progress_writes s
         @ progress_after (length (systems (prototype s)) + 3)
             (length (systems (prototype s)) + 3) \<and>
     log_texts (prototype s') =
       log_texts (prototype s) @ [''Basladi'']
         @ concat (simulated_step_logs (systems (prototype s)))
         @ [''Tamamlandi (simule)!''] \<and>
     calls s' = calls s \<and> written s' = written s"

definition completed_run :: "env \<Rightarrow> state \<Rightarrow> state \<Rightarrow> bool" where
  "completed_run env s s' \<longleftrightarrow>
     finished s s' \<and>
     progress_writes s' =
       progress_writes s
         @ progress_after (length (systems (prototype s)) + 3)
             (length (systems (prototype s)) + 2) @ [100] \<and>
     log_texts (prototype s') =
       log_texts (prototype s) @ [''Basladi'']
         @ concat (bridge_step_logs (systems (prototype s))) @ [''Tamamlandi!''] \<and>
     calls s' = calls s @ map returned (concat (bridge_step_calls env (prototype s)))"

definition failed_run :: "env \<Rightarrow> state \<Rightarrow> state \<Rightarrow> nat \<Rightarrow> exn \<Rightarrow> bool" where
  \<comment> \<open>the run from \<open>s\<close> to \<open>s'\<close> completed \<open>k\<close> steps; the call of the next step raised \<open>e\<close>\<close>
  "failed_run env s s' k e \<longleftrightarrow>
     k < length (systems (prototype s)) + 3 \<and>
     bridge_exn e \<and>
     bridge_step_calls env (prototype s) ! k \<noteq> [] \<and>
     progress_writes s' =
       progress_writes s @ progress_after (length (systems (prototype s)) + 3) k \<and>
     progress (prototype s') =
       last (progress (prototype s)
               # progress_after (length (systems (prototype s)) + 3) k) \<and>
     log_texts (prototype s') =
       log_texts (prototype s) @ [''Basladi'']
         @ concat (take (Suc k) (bridge_step_logs (systems (prototype s))))
         @ [''HATA: '' @ exn_str env e] \<and>
     calls s' =
       calls s @ map returned (concat (take k (bridge_step_calls env (prototype s))))
         @ map (raised e) (bridge_step_calls env (prototype s) ! k) \<and>
     status_writes s' = status_writes s @ [''generating'', ''failed''] \<and>
     status (prototype s') = ''failed'' \<and>
     completedAt (prototype s') = completedAt (prototype s) \<and>
     same_request (prototype s) (prototype s')"


section \<open>Example environments\<close>

text \<open>
  Concrete environments for the examples that accompany the theorems: a bridge that accepts
  every connection and answers every line with \<^verbatim>\<open>{}\<close>, a bridge that refuses every
  connection, and a bridge whose \<open>n\<close>-th transport event is a failing \<^verbatim>\<open>send\<close>.
\<close>

definition env_up :: env where
  "env_up =
     \<lparr>connect_outcome = (\<lambda>t. ConnOk),
      send_outcome = (\<lambda>t. None),
      recv_outcome = (\<lambda>t. Inr (''{}'' @ [CHR 0x0A])),
      interference = (\<lambda>t b. b),
      clock_hms = (\<lambda>n. ''12:00:00''),
      clock_iso = (\<lambda>n. ''2024-05-01T12:00:00''),
      uuid4 = (\<lambda>n. ''3f2b8c1e-0a4d-4c57-9b1e-5d2f6a7c8e90''),
      json_dumps = (\<lambda>j. ''{}''),
      json_loads = (\<lambda>s. Inr (JDict [])),
      str_strip = (\<lambda>s. s),
      str_lower = (\<lambda>s. s),
      exn_str = (\<lambda>e. case e of HTTPException code detail \<Rightarrow> detail)\<rparr>"

definition env_down :: env where
  "env_down = env_up\<lparr>connect_outcome := (\<lambda>t. ConnectError ''Connection refused'')\<rparr>"

definition env_drop :: "nat \<Rightarrow> env" where
  "env_drop n = env_up\<lparr>send_outcome := (\<lambda>t. if t = n then Some ''Broken pipe'' else None)\<rparr>"

definition demo_job :: "string list \<Rightarrow> job" where
  "demo_job syss =
     \<lparr>job_id = ''3f2b8c1e'', name = ''Demo'', gameType = ''2D'', systems = syss,
      reference = None, status = ''queued'', createdAt = ''2024-05-01T12:00:00'',
      completedAt = None, progress = 0, logs = []\<rparr>"

definition demo_state :: "string list \<Rightarrow> state" where
  "demo_state syss = task_state initial_system (demo_job syss)"

definition live_state :: state where
  \<comment> \<open>a task state whose bridge is connected on handle 0\<close>
  "live_state = (demo_state [])\<lparr>unity_bridge := \<lparr>socket = Some 0, connected = True\<rparr>\<rparr>"


section \<open>Facts about the progress arithmetic\<close>

lemma binade_lower:
  assumes "0 < x"
  shows "2 powi (binade x) \<le> x"
proof (cases "1 \<le> x")
  case True
  define m where "m = \<lfloor>x\<rfloor>"
  have m: "0 < m" using True by (simp add: m_def)
  have b: "1 \<le> bitlen m" using m bitlen_eq_zero_iff[of m] bitlen_nonneg[of m] by linarith
  have "(2::int) ^ nat (bitlen m - 1) \<le> m" using bitlen_bounds[OF m] by simp
  then have "(of_int ((2::int) ^ nat (bitlen m - 1)) :: rat) \<le> of_int m"
    by (simp only: of_int_le_iff)
  then have "(2::rat) ^ nat (bitlen m - 1) \<le> of_int m" by simp
  also have "\<dots> \<le> x" by (simp add: m_def)
  finally have "(2::rat) ^ nat (bitlen m - 1) \<le> x" .
  moreover have "(2::rat) powi (bitlen m - 1) = 2 ^ nat (bitlen m - 1)"
    using b by (simp add: power_int_def)
  ultimately show ?thesis using True by (simp add: binade_def m_def)
next
  case False
  define y where "y = 1 / x"
  have y1: "1 < y" using False assms by (simp add: y_def)
  define m where "m = \<lceil>y\<rceil> - 1"
  have m: "0 < m" using y1 by (simp add: m_def less_ceiling_iff)
  have "m < 2 ^ nat (bitlen m)" using bitlen_bounds[OF m] by simp
  then have "m + 1 \<le> 2 ^ nat (bitlen m)" by simp
  then have "(of_int (m + 1) :: rat) \<le> of_int (2 ^ nat (bitlen m))"
    by (simp only: of_int_le_iff)
  then have "(of_int \<lceil>y\<rceil> :: rat) \<le> 2 ^ nat (bitlen m)" by (simp add: m_def)
  moreover have "y \<le> of_int \<lceil>y\<rceil>" by simp
  ultimately have yle: "y \<le> 2 ^ nat (bitlen m)" by linarith
  have "1 / (2::rat) ^ nat (bitlen m) \<le> 1 / y"
    using yle y1 by (intro divide_left_mono) auto
  moreover have "1 / y = x" using assms by (simp add: y_def)
  moreover have "(2::rat) powi (- bitlen m) = 1 / 2 ^ nat (bitlen m)"
    using bitlen_nonneg[of m] by (simp add: power_int_def field_simps)
  ultimately show ?thesis using False by (simp add: binade_def m_def y_def)
qed

lemma binade_upper:
  assumes "0 < x"
  shows "x < 2 powi (binade x + 1)"
proof (cases "1 \<le> x")
  case True
  define m where "m = \<lfloor>x\<rfloor>"
  have m: "0 < m" using True by (simp add: m_def)
  have b: "1 \<le> bitlen m" using m bitlen_eq_zero_iff[of m] bitlen_nonneg[of m] by linarith
  have "m < 2 ^ nat (bitlen m)" using bitlen_bounds[OF m] by simp
  then have "m + 1 \<le> 2 ^ nat (bitlen m)" by simp
  then have "(of_int (m + 1) :: rat) \<le> of_int (2 ^ nat (bitlen m))"
    by (simp only: of_int_le_iff)
  then have "(of_int m :: rat) + 1 \<le> 2 ^ nat (bitlen m)" by simp
  moreover have "x < of_int m + 1" using floor_correct[of x] by (simp add: m_def)
  ultimately have "x < 2 ^ nat (bitlen m)" by linarith
  moreover have "(2::rat) powi (bitlen m - 1 + 1) = 2 ^ nat (bitlen m)"
    using b by (simp add: power_int_def)
  ultimately show ?thesis using True by (simp add: binade_def m_def)
next
  case False
  define y where "y = 1 / x"
  have y1: "1 < y" using False assms by (simp add: y_def)
  define m where "m = \<lceil>y\<rceil> - 1"
  have m: "0 < m" using y1 by (simp add: m_def less_ceiling_iff)
  have b: "1 \<le> bitlen m" using m bitlen_eq_zero_iff[of m] bitlen_nonneg[of m] by linarith
  have "(2::int) ^ nat (bitlen m - 1) \<le> m" using bitlen_bounds[OF m] by simp
  then have "(of_int ((2::int) ^ nat (bitlen m - 1)) :: rat) \<le> of_int m"
    by (simp only: of_int_le_iff)
  then have "(2::rat) ^ nat (bitlen m - 1) \<le> of_int m" by simp
  moreover have "of_int m < y" by (simp add: m_def) linarith
  ultimately have ylt: "(2::rat) ^ nat (bitlen m - 1) < y" by linarith
  have "1 / y < 1 / (2::rat) ^ nat (bitlen m - 1)"
    using ylt y1 by (intro divide_strict_left_mono) (auto intro!: mult_pos_pos)
  moreover have "1 / y = x" using assms by (simp add: y_def)
  moreover have "(2::rat) powi (- bitlen m + 1) = 1 / 2 ^ nat (bitlen m - 1)"
  proof -
    have "- bitlen m + 1 = - int (nat (bitlen m - 1))" using b by simp
    then show ?thesis by (simp only: power_int_minus power_int_of_nat) (simp add: field_simps)
  qed
  ultimately show ?thesis using False by (simp add: binade_def m_def y_def)
qed


lemma rhe_cases:
  "round_half_even y = \<lfloor>y\<rfloor> \<or> round_half_even y = \<lfloor>y\<rfloor> + 1"
  by (simp add: round_half_even_def Let_def)

lemma rhe_of_int: "round_half_even (of_int n) = n"
  by (simp add: round_half_even_def Let_def)

lemma rhe_lower: "of_int (round_half_even y) - 1 / 2 \<le> y"
proof -
  define f where "f = \<lfloor>y\<rfloor>"
  have "of_int f \<le> y" by (simp add: f_def)
  then show ?thesis
    unfolding round_half_even_def Let_def f_def[symmetric] by auto
qed

lemma rhe_upper: "y \<le> of_int (round_half_even y) + 1 / 2"
proof -
  define f where "f = \<lfloor>y\<rfloor>"
  have "y < of_int f + 1" using floor_correct[of y] by (simp add: f_def)
  then show ?thesis
    unfolding round_half_even_def Let_def f_def[symmetric] by auto
qed

lemma rhe_mono:
  assumes "y \<le> z"
  shows "round_half_even y \<le> round_half_even z"
proof (cases "\<lfloor>y\<rfloor> = \<lfloor>z\<rfloor>")
  case True
  then show ?thesis using assms
    by (auto simp add: round_half_even_def Let_def)
next
  case False
  then have "\<lfloor>y\<rfloor> + 1 \<le> \<lfloor>z\<rfloor>" using floor_mono[OF assms] by linarith
  moreover have "round_half_even y \<le> \<lfloor>y\<rfloor> + 1" using rhe_cases[of y] by linarith
  moreover have "\<lfloor>z\<rfloor> \<le> round_half_even z" using rhe_cases[of z] by linarith
  ultimately show ?thesis by linarith
qed

lemma ulp_pos: "0 < ulp x"
  by (simp add: ulp_def)

lemma fl_pos_eq:
  "0 < x \<Longrightarrow> fl x = of_int (round_half_even (x / ulp x)) * ulp x"
  by (simp add: fl_def)

lemma scaled_lower:
  assumes "0 < x"
  shows "2 ^ 52 \<le> x / ulp x"
proof -
  have "2 powi (binade x) \<le> x" by (rule binade_lower[OF assms])
  moreover have "(2::rat) powi (binade x) = 2 ^ 52 * ulp x"
    by (simp add: ulp_def power_int_diff)
  ultimately show ?thesis using ulp_pos[of x] by (simp add: pos_le_divide_eq)
qed

lemma scaled_upper:
  assumes "0 < x"
  shows "x / ulp x < 2 ^ 53"
proof -
  have "x < 2 powi (binade x + 1)" by (rule binade_upper[OF assms])
  moreover have "(2::rat) powi (binade x + 1) = 2 ^ 53 * ulp x"
    by (simp add: ulp_def power_int_diff power_int_add)
  ultimately show ?thesis using ulp_pos[of x] by (simp add: pos_divide_less_eq)
qed

lemma fl_lower_binade:
  assumes "0 < x"
  shows "2 powi (binade x) \<le> fl x"
proof -
  have "round_half_even (2 ^ 52) \<le> round_half_even (x / ulp x)"
    by (rule rhe_mono[OF scaled_lower[OF assms]])
  moreover have "round_half_even (2 ^ 52) = 2 ^ 52"
    using rhe_of_int[of "2 ^ 52"] by simp
  ultimately have "(2::int) ^ 52 \<le> round_half_even (x / ulp x)" by simp
  then have "(of_int (2 ^ 52) :: rat) \<le> of_int (round_half_even (x / ulp x))"
    by (simp only: of_int_le_iff)
  then have "(2::rat) ^ 52 * ulp x \<le> of_int (round_half_even (x / ulp x)) * ulp x"
    using ulp_pos[of x] by simp
  moreover have "(2::rat) powi (binade x) = 2 ^ 52 * ulp x"
    by (simp add: ulp_def power_int_diff)
  ultimately show ?thesis using assms by (simp add: fl_pos_eq)
qed

lemma fl_upper_binade:
  assumes "0 < x"
  shows "fl x \<le> 2 powi (binade x + 1)"
proof -
  have "round_half_even (x / ulp x) \<le> round_half_even (2 ^ 53)"
    by (rule rhe_mono) (use scaled_upper[OF assms] in simp)
  moreover have "round_half_even (2 ^ 53) = 2 ^ 53"
    using rhe_of_int[of "2 ^ 53"] by simp
  ultimately have "round_half_even (x / ulp x) \<le> (2::int) ^ 53" by simp
  then have "(of_int (round_half_even (x / ulp x)) :: rat) \<le> of_int (2 ^ 53)"
    by (simp only: of_int_le_iff)
  then have "of_int (round_half_even (x / ulp x)) * ulp x \<le> (2::rat) ^ 53 * ulp x"
    using ulp_pos[of x] by simp
  moreover have "(2::rat) powi (binade x + 1) = 2 ^ 53 * ulp x"
    by (simp add: ulp_def power_int_diff power_int_add)
  ultimately show ?thesis using assms by (simp add: fl_pos_eq)
qed

lemma fl_zero: "fl 0 = 0"
  by (simp add: fl_def)

lemma fl_pos: "0 < x \<Longrightarrow> 0 < fl x"
proof -
  assume x: "0 < x"
  have "(0::rat) < 2 powi (binade x)" by simp
  then show ?thesis using fl_lower_binade[OF x] by linarith
qed

lemma binade_mono:
  assumes "0 < x" "x \<le> y"
  shows "binade x \<le> binade y"
proof (rule ccontr)
  assume "\<not> binade x \<le> binade y"
  then have "binade y + 1 \<le> binade x" by simp
  then have "(2::rat) powi (binade y + 1) \<le> 2 powi (binade x)"
    by (intro power_int_increasing) auto
  moreover have "y < 2 powi (binade y + 1)" using assms by (intro binade_upper) auto
  moreover have "2 powi (binade x) \<le> x" using assms by (intro binade_lower) auto
  ultimately show False using assms by linarith
qed

lemma fl_mono_pos:
  assumes "0 < x" "x \<le> y"
  shows "fl x \<le> fl y"
proof (cases "binade x = binade y")
  case True
  then have u: "ulp x = ulp y" by (simp add: ulp_def)
  have "x / ulp y \<le> y / ulp y" using assms ulp_pos[of y] by (simp add: divide_right_mono)
  then have "round_half_even (x / ulp y) \<le> round_half_even (y / ulp y)" by (rule rhe_mono)
  then have "(of_int (round_half_even (x / ulp y)) :: rat) \<le> of_int (round_half_even (y / ulp y))"
    by (simp only: of_int_le_iff)
  then have "of_int (round_half_even (x / ulp y)) * ulp y \<le> of_int (round_half_even (y / ulp y)) * ulp y"
    using ulp_pos[of y] by simp
  then show ?thesis using assms u by (simp add: fl_pos_eq)
next
  case False
  have y: "0 < y" using assms by linarith
  from False binade_mono[OF assms] have "binade x + 1 \<le> binade y" by linarith
  then have "(2::rat) powi (binade x + 1) \<le> 2 powi (binade y)"
    by (intro power_int_increasing) auto
  with fl_upper_binade[OF assms(1)] fl_lower_binade[OF y] show ?thesis by linarith
qed

lemma fl_mono:
  assumes "0 \<le> x" "x \<le> y"
  shows "fl x \<le> fl y"
proof (cases "x = 0")
  case True
  show ?thesis
  proof (cases "y = 0")
    case True
    with \<open>x = 0\<close> show ?thesis by simp
  next
    case False
    then have "0 < y" using assms by linarith
    from fl_pos[OF this] True show ?thesis by (simp add: fl_zero)
  qed
next
  case False
  then have "0 < x" using assms by linarith
  then show ?thesis using assms(2) by (rule fl_mono_pos)
qed


lemma fl_nonneg: "0 \<le> x \<Longrightarrow> 0 \<le> fl x"
  using fl_mono[of 0 x] by (simp add: fl_zero)

lemma fl_one: "fl 1 = 1"
  by code_simp

lemma fl_hundred: "fl 100 = 100"
  by code_simp

lemma py_int_mono: "0 \<le> x \<Longrightarrow> x \<le> y \<Longrightarrow> py_int x \<le> py_int y"
  by (simp add: py_int_def floor_mono)

lemma percent_mono:
  assumes "k \<le> k'"
  shows "percent k n \<le> percent k' n"
proof -
  have a: "(0::rat) \<le> of_nat k / of_nat n" by simp
  have b: "(of_nat k :: rat) / of_nat n \<le> of_nat k' / of_nat n"
    using assms by (simp add: divide_right_mono)
  have c: "fl (of_nat k / of_nat n) \<le> fl (of_nat k' / of_nat n)"
    by (rule fl_mono[OF a b])
  have d: "0 \<le> fl (of_nat k / of_nat n)" by (rule fl_nonneg[OF a])
  have e: "0 \<le> fl (of_nat k / of_nat n) * 100" using d by simp
  have f: "fl (of_nat k / of_nat n) * 100 \<le> fl (of_nat k' / of_nat n) * 100" using c by simp
  have g: "fl (fl (of_nat k / of_nat n) * 100) \<le> fl (fl (of_nat k' / of_nat n) * 100)"
    by (rule fl_mono[OF e f])
  have h: "0 \<le> fl (fl (of_nat k / of_nat n) * 100)" by (rule fl_nonneg[OF e])
  show ?thesis unfolding percent_def by (rule py_int_mono[OF h g])
qed

lemma percent_zero: "percent 0 n = 0"
  by (simp add: percent_def fl_zero py_int_def)

lemma percent_full: "0 < n \<Longrightarrow> percent n n = 100"
  by (simp add: percent_def fl_one fl_hundred py_int_def)

lemma percent_nonneg: "0 \<le> percent k n"
  using percent_mono[of 0 k n] by (simp add: percent_zero)

lemma percent_le_100: "k \<le> n \<Longrightarrow> 0 < n \<Longrightarrow> percent k n \<le> 100"
  using percent_mono[of k n n] by (simp add: percent_full)

lemma ulp_le:
  assumes "0 < x"
  shows "ulp x \<le> x / 2 ^ 52"
proof -
  have "2 ^ 52 \<le> x / ulp x" by (rule scaled_lower[OF assms])
  then have "2 ^ 52 * ulp x \<le> x" using ulp_pos[of x] by (simp add: pos_le_divide_eq)
  then show ?thesis by (simp add: pos_le_divide_eq mult.commute)
qed

lemma fl_error:
  assumes "0 < x"
  shows "\<bar>fl x - x\<bar> \<le> x / 2 ^ 53"
proof -
  define m where "m = round_half_even (x / ulp x)"
  have u: "0 < ulp x" by (rule ulp_pos)
  have lo: "of_int m - 1 / 2 \<le> x / ulp x" unfolding m_def by (rule rhe_lower)
  have hi: "x / ulp x \<le> of_int m + 1 / 2" unfolding m_def by (rule rhe_upper)
  have lo': "(of_int m - 1 / 2) * ulp x \<le> x" using lo u by (simp add: pos_le_divide_eq)
  have hi': "x \<le> (of_int m + 1 / 2) * ulp x" using hi u by (simp add: pos_divide_le_eq)
  have "fl x = of_int m * ulp x" using assms by (simp add: fl_pos_eq m_def)
  moreover have "of_int m * ulp x - x \<le> ulp x / 2" using lo' by (simp add: algebra_simps)
  moreover have "x - of_int m * ulp x \<le> ulp x / 2" using hi' by (simp add: algebra_simps)
  ultimately have "\<bar>fl x - x\<bar> \<le> ulp x / 2" by linarith
  also have "\<dots> \<le> (x / 2 ^ 52) / 2" using ulp_le[OF assms] by simp
  also have "\<dots> = x / 2 ^ 53" by simp
  finally show ?thesis .
qed

lemma percent_exact:
  assumes n: "0 < n" "n \<le> 2 ^ 45" and k: "k \<le> n" and nd: "\<not> n dvd 100 * k"
  shows "percent k n = int ((100 * k) div n)"
proof -
  have kpos: "0 < k" using nd by (cases k) auto
  define x :: rat where "x = of_nat k / of_nat n"
  define q where "q = fl x"
  define p where "p = fl (q * 100)"
  define v :: rat where "v = of_nat (100 * k) / of_nat n"
  define d where "d = (100 * k) div n"
  define r where "r = (100 * k) mod n"
  have xpos: "0 < x" using kpos n by (simp add: x_def)
  have x1: "x \<le> 1" using k n by (simp add: x_def)
  have qpos: "0 < q" unfolding q_def by (rule fl_pos[OF xpos])
  have q1: "q \<le> 1" using fl_mono[of x 1] xpos x1 by (simp add: q_def fl_one)
  have e1: "\<bar>q - x\<bar> \<le> x / 2 ^ 53" unfolding q_def by (rule fl_error[OF xpos])
  have e1': "\<bar>q - x\<bar> \<le> 1 / 2 ^ 53" using e1 x1 by (simp add: field_simps) 
  have q100: "0 < q * 100" using qpos by simp
  have e2: "\<bar>p - q * 100\<bar> \<le> (q * 100) / 2 ^ 53" unfolding p_def by (rule fl_error[OF q100])
  have e2': "\<bar>p - q * 100\<bar> \<le> 100 / 2 ^ 53" using e2 q1 by (simp add: field_simps)
  have vx: "v = x * 100" by (simp add: v_def x_def)
  have a1: "q - x \<le> 1 / 2 ^ 53" "x - q \<le> 1 / 2 ^ 53" using e1' by (auto simp only: abs_le_iff)
  have a2: "p - q * 100 \<le> 100 / 2 ^ 53" "q * 100 - p \<le> 100 / 2 ^ 53"
    using e2' by (auto simp only: abs_le_iff)
  have err: "p - v \<le> 200 / 2 ^ 53" "v - p \<le> 200 / 2 ^ 53"
    using a1 a2 unfolding vx by simp_all
  have rpos: "0 < r" using nd by (simp add: r_def dvd_eq_mod_eq_0)
  have rlt: "r < n" using n by (simp add: r_def)
  have "100 * k = d * n + r" by (simp add: d_def r_def)
  then have "(of_nat (100 * k) :: rat) = of_nat d * of_nat n + of_nat r"
    by (metis of_nat_add of_nat_mult)
  then have vd: "v = of_nat d + of_nat r / of_nat n" using n by (simp add: v_def field_simps)
  have inv: "(1::rat) / 2 ^ 45 \<le> 1 / of_nat n"
  proof -
    have "(of_nat n :: rat) \<le> of_nat (2 ^ 45)" using n(2) by (simp only: of_nat_le_iff)
    then have "(of_nat n :: rat) \<le> 2 ^ 45" by simp
    then show ?thesis using n(1) by (intro divide_left_mono) auto
  qed
  have "(1::rat) / of_nat n \<le> of_nat r / of_nat n"
    using rpos n by (intro divide_right_mono) auto
  then have vlo: "of_nat d + 1 / 2 ^ 45 \<le> v" using inv vd by linarith
  have "(of_nat r :: rat) \<le> of_nat n - 1" using rlt
    by (metis Suc_leI of_nat_Suc of_nat_le_iff le_diff_eq add.commute)
  then have "(of_nat r :: rat) / of_nat n \<le> (of_nat n - 1) / of_nat n"
    using n by (intro divide_right_mono) auto
  also have "\<dots> = 1 - 1 / of_nat n" using n by (simp add: field_simps)
  finally have vhi: "v \<le> of_nat d + 1 - 1 / 2 ^ 45" using inv vd by linarith
  have plo: "of_nat d \<le> p" using err(2) vlo by simp
  have phi: "p < of_nat d + 1" using err(1) vhi by simp
  have "\<lfloor>p\<rfloor> = int d" using plo phi by (simp add: floor_eq_iff)
  moreover have "0 \<le> p" using plo by (meson of_nat_0_le_iff order_trans)
  ultimately show ?thesis by (simp add: percent_def py_int_def p_def q_def x_def d_def)
qed


section \<open>Facts about the bridge\<close>

lemmas job_writes = set_status_def set_progress_def set_completedAt_def append_log_def
  asyncio_sleep_def

lemma connect_result:
  "fst (connect env s) = (connect_outcome env (tick s) = ConnOk)"
  by (simp add: connect_def Let_def split: conn_outcome.splits)

lemma connect_live:
  "connected (unity_bridge (snd (connect env s))) = (connect_outcome env (tick s) = ConnOk)"
  by (simp add: connect_def Let_def split: conn_outcome.splits)

lemma connect_frame:
  "prototype (snd (connect env s)) = prototype s"
  "reads (snd (connect env s)) = reads s"
  "calls (snd (connect env s)) = calls s"
  "written (snd (connect env s)) = written s"
  "progress_writes (snd (connect env s)) = progress_writes s"
  "status_writes (snd (connect env s)) = status_writes s"
  "connects (snd (connect env s)) = connects s @ [connect_outcome env (tick s)]"
  "tick (snd (connect env s)) = Suc (tick s)"
  by (simp_all add: connect_def Let_def split: conn_outcome.splits)

lemma ensure_connected_frame:
  "prototype (ensure_connected env s) = prototype s"
  "reads (ensure_connected env s) = reads s"
  "calls (ensure_connected env s) = calls s"
  "written (ensure_connected env s) = written s"
  "progress_writes (ensure_connected env s) = progress_writes s"
  "status_writes (ensure_connected env s) = status_writes s"
  by (simp_all add: ensure_connected_def connect_frame)

lemma ensure_connected_connects:
  "connects (ensure_connected env s) =
     (if connected (unity_bridge s) then connects s
      else connects s @ [connect_outcome env (tick s)])"
  by (simp add: ensure_connected_def connect_frame)

lemma ensure_connected_live:
  "connected (unity_bridge (ensure_connected env s)) =
     (connected (unity_bridge s) \<or> connect_outcome env (tick s) = ConnOk)"
  by (simp add: ensure_connected_def connect_live)

lemma recv_loop_frame:
  assumes "recv_loop env response s = Some y"
  shows "prototype (snd y) = prototype s \<and> unity_bridge (snd y) = unity_bridge s \<and>
     reads (snd y) = reads s \<and> calls (snd y) = calls s \<and> connects (snd y) = connects s \<and>
     written (snd y) = written s \<and> progress_writes (snd y) = progress_writes s \<and>
     status_writes (snd y) = status_writes s"
proof -
  let ?Q = "\<lambda>(e::env) (r::string) (s::state) (y::(string + string) \<times> state).
     prototype (snd y) = prototype s \<and> unity_bridge (snd y) = unity_bridge s \<and>
     reads (snd y) = reads s \<and> calls (snd y) = calls s \<and> connects (snd y) = connects s \<and>
     written (snd y) = written s \<and> progress_writes (snd y) = progress_writes s \<and>
     status_writes (snd y) = status_writes s"
  have "?Q env response s y"
  proof (rule recv_loop.raw_induct[where P = ?Q, OF _ assms])
    fix loop :: "env \<Rightarrow> string \<Rightarrow> state \<Rightarrow> ((string + string) \<times> state) option"
    fix env response s y
    assume IH: "\<And>e r s y. loop e r s = Some y \<Longrightarrow> ?Q e r s y"
    assume body: "(if endswith_newline response then Some (Inr response, s)
      else case recv_outcome env (tick s) of
             Inl e \<Rightarrow> Some (Inl e, s\<lparr>tick := Suc (tick s)\<rparr>)
           | Inr chunk \<Rightarrow>
               if chunk = [] then Some (Inr response, s\<lparr>tick := Suc (tick s)\<rparr>)
               else loop env (response @ chunk) (s\<lparr>tick := Suc (tick s)\<rparr>)) = Some y"
    show "?Q env response s y"
    proof (cases "endswith_newline response")
      case True
      with body show ?thesis by auto
    next
      case False
      show ?thesis
      proof (cases "recv_outcome env (tick s)")
        case (Inl e)
        with False body show ?thesis by auto
      next
        case (Inr chunk)
        show ?thesis
        proof (cases "chunk = []")
          case True
          with False Inr body show ?thesis by auto
        next
          case False
          with \<open>\<not> endswith_newline response\<close> Inr body
          have "loop env (response @ chunk) (s\<lparr>tick := Suc (tick s)\<rparr>) = Some y" by simp
          from IH[OF this] show ?thesis by simp
        qed
      qed
    qed
  qed
  then show ?thesis .
qed

lemma exchange_frame:
  assumes "exchange env command params s = Some (r, s')"
  shows "prototype s' = prototype s" "unity_bridge s' = unity_bridge s" "reads s' = reads s"
    "calls s' = calls s" "connects s' = connects s"
    "progress_writes s' = progress_writes s" "status_writes s' = status_writes s"
proof -
  have "prototype s' = prototype s \<and> unity_bridge s' = unity_bridge s \<and> reads s' = reads s \<and>
    calls s' = calls s \<and> connects s' = connects s \<and>
    progress_writes s' = progress_writes s \<and> status_writes s' = status_writes s"
  proof (cases "socket (unity_bridge s)")
    case None
    with assms show ?thesis by (auto simp add: exchange_def Let_def)
  next
    case (Some h)
    show ?thesis
    proof (cases "send_outcome env (tick s)")
      case (Some e)
      with \<open>socket (unity_bridge s) = Some h\<close> assms show ?thesis
        by (auto simp add: exchange_def Let_def)
    next
      case None
      define s1 where "s1 = s\<lparr>tick := Suc (tick s),
        written := written s @ [json_dumps env (JDict [(''command'', JStr command), (''params'', params)]) @ [CHR 0x0A]]\<rparr>"
      from None \<open>socket (unity_bridge s) = Some h\<close> assms
      obtain y where y: "recv_loop env [] s1 = Some y" and s': "s' = snd y"
        by (auto simp add: exchange_def Let_def s1_def split: option.splits sum.splits prod.splits)
      from recv_loop_frame[OF y] s' show ?thesis by (simp add: s1_def)
    qed
  qed
  then show "prototype s' = prototype s" "unity_bridge s' = unity_bridge s" "reads s' = reads s"
    "calls s' = calls s" "connects s' = connects s"
    "progress_writes s' = progress_writes s" "status_writes s' = status_writes s"
    by simp_all
qed

lemma exchange_no_socket:
  "socket (unity_bridge s) = None \<Longrightarrow>
     exchange env command params s = Some (Inl none_has_no_send, s)"
  by (simp add: exchange_def Let_def)

lemma send_command_frame:
  assumes "send_command env command params s = Some (r, s')"
  shows "prototype s' = prototype s" "reads s' = reads s" "calls s' = calls s"
    "progress_writes s' = progress_writes s" "status_writes s' = status_writes s"
    "connects s' = connects (ensure_connected env s)"
proof -
  define s1 where "s1 = ensure_connected env s"
  have f1: "prototype s1 = prototype s" "reads s1 = reads s" "calls s1 = calls s"
    "progress_writes s1 = progress_writes s" "status_writes s1 = status_writes s"
    by (simp_all add: s1_def ensure_connected_frame)
  have "prototype s' = prototype s1 \<and> reads s' = reads s1 \<and> calls s' = calls s1 \<and>
    progress_writes s' = progress_writes s1 \<and> status_writes s' = status_writes s1 \<and>
    connects s' = connects s1"
  proof (cases "connected (unity_bridge s1)")
    case False
    with assms show ?thesis by (simp add: send_command_def Let_def s1_def[symmetric])
  next
    case True
    with assms obtain r2 s2 where ex: "exchange env command params s1 = Some (r2, s2)"
      and s': "s' = s2 \<or> s' = s2\<lparr>unity_bridge := (unity_bridge s2)\<lparr>connected := False\<rparr>\<rparr>"
      by (auto simp add: send_command_def Let_def s1_def[symmetric]
          split: option.splits sum.splits prod.splits)
    from exchange_frame[OF ex] s' show ?thesis by auto
  qed
  with f1 show "prototype s' = prototype s" "reads s' = reads s" "calls s' = calls s"
    "progress_writes s' = progress_writes s" "status_writes s' = status_writes s"
    "connects s' = connects (ensure_connected env s)"
    by (simp_all add: s1_def)
qed

lemma send_command_unavailable:
  assumes "\<not> connected (unity_bridge s)" "connect_outcome env (tick s) \<noteq> ConnOk"
  shows "send_command env command params s =
           Some (Inl (HTTPException 503 ''Unity Bridge baglantisi yok''), snd (connect env s))"
  using assms by (simp add: send_command_def Let_def ensure_connected_def connect_live)

lemma send_command_error:
  assumes "connected (unity_bridge (ensure_connected env s))"
    "exchange env command params (ensure_connected env s) = Some (Inl cause, s2)"
  shows "send_command env command params s =
           Some (Inl (HTTPException 500 (''Unity komut hatasi: '' @ cause)),
                 s2\<lparr>unity_bridge := (unity_bridge s2)\<lparr>connected := False\<rparr>\<rparr>)"
  using assms by (simp add: send_command_def Let_def)

lemma send_command_raises:
  assumes "send_command env command params s = Some (Inl e, s')"
  shows "\<not> connected (unity_bridge s')"
    and "e = HTTPException 503 ''Unity Bridge baglantisi yok'' \<or>
         (\<exists>cause. e = HTTPException 500 (''Unity komut hatasi: '' @ cause))"
  using assms
  by (auto simp add: send_command_def Let_def split: if_splits option.splits sum.splits prod.splits)

lemma await_send_command_frame:
  assumes "await_send_command env command params s = Some (r, s')"
  shows "prototype s' = prototype s" "reads s' = reads s"
    "progress_writes s' = progress_writes s" "status_writes s' = status_writes s"
    "calls s' = calls s @ [(command, params, case r of Inl e \<Rightarrow> Some e | Inr v \<Rightarrow> None)]"
proof -
  from assms obtain s1 where sc: "send_command env command params s = Some (r, s1)"
    and s': "s' = s1\<lparr>calls := calls s1 @ [(command, params, case r of Inl e \<Rightarrow> Some e | Inr v \<Rightarrow> None)]\<rparr>"
    by (auto simp add: await_send_command_def split: option.splits sum.splits prod.splits)
  from send_command_frame[OF sc] s'
  show "prototype s' = prototype s" "reads s' = reads s"
    "progress_writes s' = progress_writes s" "status_writes s' = status_writes s"
    "calls s' = calls s @ [(command, params, case r of Inl e \<Rightarrow> Some e | Inr v \<Rightarrow> None)]"
    by simp_all
qed


section \<open>The contract of send_command\<close>

lemma exchange_send_error:
  assumes "socket (unity_bridge s) = Some h" "send_outcome env (tick s) = Some cause"
  shows "\<exists>s2. exchange env command params s = Some (Inl cause, s2)"
  using assms by (simp add: exchange_def Let_def)

lemma exchange_recv_error:
  assumes "socket (unity_bridge s) = Some h" "send_outcome env (tick s) = None"
    "recv_loop env []
       (s\<lparr>tick := Suc (tick s),
          written := written s @
            [json_dumps env (JDict [(''command'', JStr command), (''params'', params)])
               @ [CHR 0x0A]]\<rparr>) = Some (Inl cause, s2)"
  shows "exchange env command params s = Some (Inl cause, s2)"
  using assms by (simp add: exchange_def Let_def)

lemma exchange_parse_error:
  assumes "socket (unity_bridge s) = Some h" "send_outcome env (tick s) = None"
    "recv_loop env []
       (s\<lparr>tick := Suc (tick s),
          written := written s @
            [json_dumps env (JDict [(''command'', JStr command), (''params'', params)])
               @ [CHR 0x0A]]\<rparr>) = Some (Inr response, s2)"
    "json_loads env (str_strip env response) = Inl cause"
  shows "exchange env command params s = Some (Inl cause, s2)"
  using assms by (simp add: exchange_def Let_def)

text \<open>
  C8. A call of \<open>send_command\<close> on a bridge that is not live attempts exactly one connect,
  and none on a live bridge. If the bridge is still not live after the attempt, the call
  raises \<^verbatim>\<open>HTTPException(503)\<close> (a value the caller can handle), and nothing has been handed
  to \<^verbatim>\<open>socket.send\<close>. If the bridge is live and the \<^verbatim>\<open>try\<close> block raises (a failing
  \<^verbatim>\<open>send\<close>, a failing \<^verbatim>\<open>recv\<close> or \<^verbatim>\<open>decode\<close>, a response that does not parse), the
  bridge is marked not live and the call raises \<^verbatim>\<open>HTTPException(500)\<close> whose detail ends
  in the text of the underlying exception.
\<close>

theorem send_command_contract:
  "(\<forall>r s'. send_command env command params s = Some (r, s') \<longrightarrow>
       connects s' = (if connected (unity_bridge s) then connects s
                      else connects s @ [connect_outcome env (tick s)]))
   \<and> (\<not> connected (unity_bridge s) \<and> connect_outcome env (tick s) \<noteq> ConnOk \<longrightarrow>
        (\<exists>s'. send_command env command params s =
                 Some (Inl (HTTPException 503 ''Unity Bridge baglantisi yok''), s')
              \<and> written s' = written s
              \<and> connects s' = connects s @ [connect_outcome env (tick s)]
              \<and> \<not> connected (unity_bridge s')))
   \<and> (\<forall>cause s2. connected (unity_bridge (ensure_connected env s))
         \<and> exchange env command params (ensure_connected env s) = Some (Inl cause, s2) \<longrightarrow>
         send_command env command params s =
           Some (Inl (HTTPException 500 (''Unity komut hatasi: '' @ cause)),
                 s2\<lparr>unity_bridge := (unity_bridge s2)\<lparr>connected := False\<rparr>\<rparr>))
   \<and> (\<forall>h cause. socket (unity_bridge s) = Some h \<and> send_outcome env (tick s) = Some cause \<longrightarrow>
         (\<exists>s2. exchange env command params s = Some (Inl cause, s2)))
   \<and> (\<forall>h response cause s2. socket (unity_bridge s) = Some h
         \<and> send_outcome env (tick s) = None
         \<and> recv_loop env []
              (s\<lparr>tick := Suc (tick s),
                 written := written s @
                   [json_dumps env (JDict [(''command'', JStr command), (''params'', params)])
                      @ [CHR 0x0A]]\<rparr>) = Some (response, s2)
         \<and> (response = Inl cause
              \<or> (\<exists>line. response = Inr line \<and> json_loads env (str_strip env line) = Inl cause)) \<longrightarrow>
         exchange env command params s = Some (Inl cause, s2))"
proof (intro conjI allI impI)
  fix r s'
  assume "send_command env command params s = Some (r, s')"
  from send_command_frame(6)[OF this]
  show "connects s' = (if connected (unity_bridge s) then connects s
                       else connects s @ [connect_outcome env (tick s)])"
    by (simp add: ensure_connected_connects)
next
  assume a: "\<not> connected (unity_bridge s) \<and> connect_outcome env (tick s) \<noteq> ConnOk"
  then have "send_command env command params s =
      Some (Inl (HTTPException 503 ''Unity Bridge baglantisi yok''), snd (connect env s))"
    by (simp add: send_command_unavailable)
  moreover have "written (snd (connect env s)) = written s"
    "connects (snd (connect env s)) = connects s @ [connect_outcome env (tick s)]"
    by (simp_all add: connect_frame)
  moreover have "\<not> connected (unity_bridge (snd (connect env s)))"
    using a by (simp add: connect_live)
  ultimately show "\<exists>s'. send_command env command params s =
                 Some (Inl (HTTPException 503 ''Unity Bridge baglantisi yok''), s')
              \<and> written s' = written s
              \<and> connects s' = connects s @ [connect_outcome env (tick s)]
              \<and> \<not> connected (unity_bridge s')"
    by blast
next
  fix cause s2
  assume "connected (unity_bridge (ensure_connected env s))
         \<and> exchange env command params (ensure_connected env s) = Some (Inl cause, s2)"
  then show "send_command env command params s =
           Some (Inl (HTTPException 500 (''Unity komut hatasi: '' @ cause)),
                 s2\<lparr>unity_bridge := (unity_bridge s2)\<lparr>connected := False\<rparr>\<rparr>)"
    by (simp add: send_command_error)
next
  fix h cause
  assume "socket (unity_bridge s) = Some h \<and> send_outcome env (tick s) = Some cause"
  then show "\<exists>s2. exchange env command params s = Some (Inl cause, s2)"
    using exchange_send_error by blast
next
  fix h response cause s2
  assume a: "socket (unity_bridge s) = Some h
         \<and> send_outcome env (tick s) = None
         \<and> recv_loop env []
              (s\<lparr>tick := Suc (tick s),
                 written := written s @
                   [json_dumps env (JDict [(''command'', JStr command), (''params'', params)])
                      @ [CHR 0x0A]]\<rparr>) = Some (response, s2)
         \<and> (response = Inl cause
              \<or> (\<exists>line. response = Inr line \<and> json_loads env (str_strip env line) = Inl cause))"
  then show "exchange env command params s = Some (Inl cause, s2)"
    using exchange_recv_error exchange_parse_error by blast
qed

theorem send_command_contract_witness:
  "\<not> connected (unity_bridge (demo_state []))
   \<and> connect_outcome env_down (tick (demo_state [])) \<noteq> ConnOk
   \<and> (\<exists>s'. send_command env_down ''SetupPlayer'' JNull (demo_state []) =
              Some (Inl (HTTPException 503 ''Unity Bridge baglantisi yok''), s')
           \<and> written s' = written (demo_state [])
           \<and> connects s' = [ConnectError ''Connection refused'']
           \<and> \<not> connected (unity_bridge s'))
   \<and> connected (unity_bridge (ensure_connected (env_drop 0) live_state))
   \<and> exchange (env_drop 0) ''SetupPlayer'' JNull (ensure_connected (env_drop 0) live_state)
       = Some (Inl ''Broken pipe'', live_state\<lparr>tick := 1, written := [''{}'' @ [CHR 0x0A]]\<rparr>)
   \<and> send_command (env_drop 0) ''SetupPlayer'' JNull live_state =
       Some (Inl (HTTPException 500 ''Unity komut hatasi: Broken pipe''),
             live_state\<lparr>tick := 1, written := [''{}'' @ [CHR 0x0A]],
                         unity_bridge := \<lparr>socket = Some 0, connected = False\<rparr>\<rparr>)"
proof -
  have a: "\<not> connected (unity_bridge (demo_state []))"
    by (simp add: demo_state_def task_state_def initial_system_def)
  have b: "connect_outcome env_down (tick (demo_state [])) \<noteq> ConnOk"
    by (simp add: env_down_def)
  have c: "connected (unity_bridge (ensure_connected (env_drop 0) live_state))"
    by (simp add: ensure_connected_def live_state_def)
  have d: "exchange (env_drop 0) ''SetupPlayer'' JNull (ensure_connected (env_drop 0) live_state)
       = Some (Inl ''Broken pipe'', live_state\<lparr>tick := 1, written := [''{}'' @ [CHR 0x0A]]\<rparr>)"
    by (simp add: ensure_connected_def live_state_def exchange_def Let_def env_drop_def
        env_up_def demo_state_def task_state_def initial_system_def)
  have e: "unity_bridge live_state = \<lparr>socket = Some 0, connected = True\<rparr>"
    by (simp add: live_state_def)
  from send_command_contract[of env_down "''SetupPlayer''" JNull "demo_state []"] a b
  have f: "\<exists>s'. send_command env_down ''SetupPlayer'' JNull (demo_state []) =
              Some (Inl (HTTPException 503 ''Unity Bridge baglantisi yok''), s')
           \<and> written s' = written (demo_state [])
           \<and> connects s' = connects (demo_state []) @ [connect_outcome env_down (tick (demo_state []))]
           \<and> \<not> connected (unity_bridge s')"
    by blast
  have g: "connects (demo_state []) @ [connect_outcome env_down (tick (demo_state []))]
        = [ConnectError ''Connection refused'']"
    by (simp add: demo_state_def task_state_def env_down_def)
  from send_command_contract[of "env_drop 0" "''SetupPlayer''" JNull live_state] c d
  have h: "send_command (env_drop 0) ''SetupPlayer'' JNull live_state =
       Some (Inl (HTTPException 500 (''Unity komut hatasi: '' @ ''Broken pipe'')),
             (live_state\<lparr>tick := 1, written := [''{}'' @ [CHR 0x0A]]\<rparr>)
               \<lparr>unity_bridge := (unity_bridge (live_state\<lparr>tick := 1, written := [''{}'' @ [CHR 0x0A]]\<rparr>))\<lparr>connected := False\<rparr>\<rparr>)"
    by blast
  show ?thesis using a b c d f g h e by simp
qed


section \<open>The effect of the engine's steps\<close>

lemma same_request_refl: "same_request j j"
  by (simp add: same_request_def)

lemma same_request_params:
  assumes "same_request j j'"
  shows "import_params j' = import_params j" "player_params env j' = player_params env j"
    "ui_params j' = ui_params j" "system_call j' = system_call j"
    "bridge_step_calls env j' = bridge_step_calls env j"
proof -
  show a: "import_params j' = import_params j"
    using assms by (simp add: same_request_def import_params_def fun_eq_iff)
  show "player_params env j' = player_params env j"
    using assms by (simp add: same_request_def player_params_def)
  show "ui_params j' = ui_params j"
    using assms by (simp add: same_request_def ui_params_def)
  show b: "system_call j' = system_call j"
    unfolding system_call_def a by (rule refl)
  show "bridge_step_calls env j' = bridge_step_calls env j"
    using assms by (simp add: bridge_step_calls_def b same_request_def player_params_def ui_params_def)
qed

lemma effect_refl: "effect s s [] [] []"
  by (simp add: effect_def same_request_def)

lemma effect_trans:
  assumes "effect s s1 ws1 ts1 cs1" "effect s1 s2 ws2 ts2 cs2"
  shows "effect s s2 (ws1 @ ws2) (ts1 @ ts2) (cs1 @ cs2)"
  using assms by (auto simp add: effect_def same_request_def last_append)

lemma effect_append_log: "effect s (append_log env text s) [] [text] []"
  by (simp add: effect_def same_request_def append_log_def log_texts_def)

lemma effect_set_progress: "effect s (set_progress v s) [v] [] []"
  by (simp add: effect_def same_request_def set_progress_def log_texts_def)

lemma effect_asyncio_sleep: "effect s (asyncio_sleep env s) [] [] []"
  by (simp add: effect_def same_request_def asyncio_sleep_def log_texts_def)

lemma effect_await_send_command:
  assumes "await_send_command env command params s = Some (r, s')"
  shows "effect s s' [] []
           [(command, params, case r of Inl e \<Rightarrow> Some e | Inr v \<Rightarrow> None)]"
  using await_send_command_frame[OF assms]
  by (simp add: effect_def same_request_def log_texts_def)

lemma system_step_unknown:
  assumes "map_of SYSTEM_TEMPLATES system_id = None"
  shows "system_step env total_steps system_id current_step s =
           Some (Inr (current_step + 1),
                 set_progress (percent (current_step + 1) total_steps) s)"
  using assms by (simp add: system_step_def)

lemma system_step_returns:
  assumes "system_step env total_steps system_id current_step s = Some (Inr c, s')"
  shows "c = current_step + 1"
    and "effect s s' [percent (current_step + 1) total_steps] (system_log system_id)
           (map returned (system_call (prototype s) system_id))"
proof -
  show "c = current_step + 1" using assms
    by (auto simp add: system_step_def Let_def split: option.splits sum.splits prod.splits)
  show "effect s s' [percent (current_step + 1) total_steps] (system_log system_id)
           (map returned (system_call (prototype s) system_id))"
  proof (cases "map_of SYSTEM_TEMPLATES system_id")
    case None
    with assms have "s' = set_progress (percent (current_step + 1) total_steps) s"
      by (auto simp add: system_step_def)
    with None show ?thesis
      by (simp add: system_log_def system_call_def effect_set_progress)
  next
    case (Some t)
    define s1 where "s1 = append_log env (t_name t @ '' ekleniyor...'') s"
    have e1: "effect s s1 [] [t_name t @ '' ekleniyor...''] []"
      unfolding s1_def by (rule effect_append_log)
    from assms Some obtain v s2 where
      call: "await_send_command env ''ImportVaultSystem''
               (import_params (prototype s1) system_id t) s1 = Some (Inr v, s2)"
      and s': "s' = set_progress (percent (current_step + 1) total_steps) (asyncio_sleep env s2)"
      by (auto simp add: system_step_def Let_def s1_def
          split: option.splits sum.splits prod.splits)
    have sr: "same_request (prototype s) (prototype s1)" using e1 by (simp add: effect_def)
    have e2: "effect s1 s2 [] []
        [(''ImportVaultSystem'', import_params (prototype s) system_id t, None)]"
      using effect_await_send_command[OF call] same_request_params(1)[OF sr] by simp
    have e3: "effect s2 (asyncio_sleep env s2) [] [] []" by (rule effect_asyncio_sleep)
    have e4: "effect (asyncio_sleep env s2) s' [percent (current_step + 1) total_steps] [] []"
      unfolding s' by (rule effect_set_progress)
    from effect_trans[OF effect_trans[OF effect_trans[OF e1 e2] e3] e4] Some
    show ?thesis by (simp add: system_log_def system_call_def returned_def)
  qed
qed

lemma system_step_raises:
  assumes "system_step env total_steps system_id current_step s = Some (Inl e, s')"
  shows "system_call (prototype s) system_id \<noteq> []"
    and "effect s s' [] (system_log system_id)
           (map (raised e) (system_call (prototype s) system_id))"
proof -
  from assms obtain t where Some: "map_of SYSTEM_TEMPLATES system_id = Some t"
    by (cases "map_of SYSTEM_TEMPLATES system_id") (auto simp add: system_step_def)
  then show "system_call (prototype s) system_id \<noteq> []" by (simp add: system_call_def)
  define s1 where "s1 = append_log env (t_name t @ '' ekleniyor...'') s"
  have e1: "effect s s1 [] [t_name t @ '' ekleniyor...''] []"
    unfolding s1_def by (rule effect_append_log)
  from assms Some have
    call: "await_send_command env ''ImportVaultSystem''
             (import_params (prototype s1) system_id t) s1 = Some (Inl e, s')"
    by (auto simp add: system_step_def Let_def s1_def
        split: option.splits sum.splits prod.splits)
  have sr: "same_request (prototype s) (prototype s1)" using e1 by (simp add: effect_def)
  have e2: "effect s1 s' [] []
      [(''ImportVaultSystem'', import_params (prototype s) system_id t, Some e)]"
    using effect_await_send_command[OF call] same_request_params(1)[OF sr] by simp
  from effect_trans[OF e1 e2] Some
  show "effect s s' [] (system_log system_id)
           (map (raised e) (system_call (prototype s) system_id))"
    by (simp add: system_log_def system_call_def raised_def)
qed


lemma effect_same_request: "effect s s' ws ts cs \<Longrightarrow> same_request (prototype s) (prototype s')"
  by (simp add: effect_def)

lemma effect_systems: "effect s s' ws ts cs \<Longrightarrow> systems (prototype s') = systems (prototype s)"
  by (simp add: effect_def same_request_def)

lemma percent_upt_Cons:
  "percent (Suc c) n # map (\<lambda>i. percent i n) [Suc (Suc c)..<Suc (Suc (c + k))]
     = map (\<lambda>i. percent i n) [Suc c..<Suc (Suc (c + k))]"
proof -
  have "Suc c < Suc (Suc (c + k))" by simp
  from upt_conv_Cons[OF this] show ?thesis by (simp only: list.map)
qed

lemma systems_loop_returns:
  assumes "systems_loop env n xs cs s = Some (Inr c, s')"
  shows "c = cs + length xs \<and>
         effect s s' (map (\<lambda>i. percent i n) [cs + 1..<cs + 1 + length xs])
           (concat (map system_log xs))
           (map returned (concat (map (system_call (prototype s)) xs)))"
  using assms
proof (induction xs arbitrary: cs s)
  case Nil
  then show ?case by (simp add: effect_refl)
next
  case (Cons x xs)
  from Cons.prems obtain c1 s1 where
    step: "system_step env n x cs s = Some (Inr c1, s1)"
    and rest: "systems_loop env n xs c1 s1 = Some (Inr c, s')"
    by (auto split: option.splits sum.splits prod.splits)
  from system_step_returns[OF step] have c1: "c1 = cs + 1"
    and e1: "effect s s1 [percent (cs + 1) n] (system_log x)
               (map returned (system_call (prototype s) x))"
    by simp_all
  from Cons.IH[OF rest] have c: "c = c1 + length xs"
    and e2: "effect s1 s' (map (\<lambda>i. percent i n) [c1 + 1..<c1 + 1 + length xs])
               (concat (map system_log xs))
               (map returned (concat (map (system_call (prototype s1)) xs)))"
    by simp_all
  have sc: "system_call (prototype s1) = system_call (prototype s)"
    by (rule same_request_params(4)[OF effect_same_request[OF e1]])
  from effect_trans[OF e1 e2] show ?case
    by (simp add: c c1 sc percent_upt_Cons del: upt_Suc)
qed

lemma systems_loop_raises:
  assumes "systems_loop env n xs cs s = Some (Inl e, s')"
  shows "\<exists>k<length xs. system_call (prototype s) (xs ! k) \<noteq> [] \<and>
           effect s s' (map (\<lambda>i. percent i n) [cs + 1..<cs + 1 + k])
             (concat (map system_log (take (Suc k) xs)))
             (map returned (concat (map (system_call (prototype s)) (take k xs)))
                @ map (raised e) (system_call (prototype s) (xs ! k)))"
  using assms
proof (induction xs arbitrary: cs s)
  case Nil
  then show ?case by simp
next
  case (Cons x xs)
  from Cons.prems obtain r1 s1 where step: "system_step env n x cs s = Some (r1, s1)"
    by (auto split: option.splits)
  show ?case
  proof (cases r1)
    case (Inl e1)
    with Cons.prems step have eq: "e1 = e" "s1 = s'" by simp_all
    from system_step_raises[OF step[unfolded Inl eq]]
    have "system_call (prototype s) x \<noteq> []"
      and "effect s s' [] (system_log x) (map (raised e) (system_call (prototype s) x))"
      by simp_all
    then have "system_call (prototype s) ((x # xs) ! 0) \<noteq> [] \<and>
           effect s s' (map (\<lambda>i. percent i n) [cs + 1..<cs + 1 + 0])
             (concat (map system_log (take (Suc 0) (x # xs))))
             (map returned (concat (map (system_call (prototype s)) (take 0 (x # xs))))
                @ map (raised e) (system_call (prototype s) ((x # xs) ! 0)))"
      by simp
    then show ?thesis by blast
  next
    case (Inr c1)
    with Cons.prems step have rest: "systems_loop env n xs c1 s1 = Some (Inl e, s')" by simp
    from system_step_returns[OF step[unfolded Inr]] have c1: "c1 = cs + 1"
      and e1: "effect s s1 [percent (cs + 1) n] (system_log x)
                 (map returned (system_call (prototype s) x))"
      by simp_all
    have sc: "system_call (prototype s1) = system_call (prototype s)"
      by (rule same_request_params(4)[OF effect_same_request[OF e1]])
    from Cons.IH[OF rest] obtain k where k: "k < length xs"
      and ne: "system_call (prototype s1) (xs ! k) \<noteq> []"
      and e2: "effect s1 s' (map (\<lambda>i. percent i n) [c1 + 1..<c1 + 1 + k])
             (concat (map system_log (take (Suc k) xs)))
             (map returned (concat (map (system_call (prototype s1)) (take k xs)))
                @ map (raised e) (system_call (prototype s1) (xs ! k)))"
      by blast
    from effect_trans[OF e1 e2]
    have "effect s s' (map (\<lambda>i. percent i n) [cs + 1..<cs + 1 + Suc k])
             (concat (map system_log (take (Suc (Suc k)) (x # xs))))
             (map returned (concat (map (system_call (prototype s)) (take (Suc k) (x # xs))))
                @ map (raised e) (system_call (prototype s) ((x # xs) ! Suc k)))"
      by (simp add: sc c1 percent_upt_Cons del: upt_Suc)
    moreover have "Suc k < length (x # xs)" using k by simp
    moreover have "system_call (prototype s) ((x # xs) ! Suc k) \<noteq> []" using ne sc by simp
    ultimately show ?thesis by blast
  qed
qed

section \<open>The simulated path\<close>

lemma simulate_step_frame:
  "calls (simulate_step env n s i) = calls s"
  "written (simulate_step env n s i) = written s"
  "connects (simulate_step env n s i) = connects s"
  by (simp_all add: simulate_step_def Let_def job_writes)

lemma simulate_step_effect:
  assumes "n = length (systems (prototype s)) + 3" "i < n"
  shows "effect s (simulate_step env n s i) [percent (i + 1) n]
           (simulated_step_logs (systems (prototype s)) ! i) []"
proof -
  define s1 where "s1 = set_progress (percent (i + 1) n) (asyncio_sleep env s)"
  have e1: "effect s s1 [percent (i + 1) n] [] []"
    using effect_trans[OF effect_asyncio_sleep effect_set_progress] by (simp add: s1_def)
  have sy: "systems (prototype s1) = systems (prototype s)" by (rule effect_systems[OF e1])
  define syss where "syss = systems (prototype s)"
  have unf: "simulate_step env n s i =
     (if i = 0 then append_log env ''Scene olusturuluyor (simule)...'' s1
      else if i < length syss + 1 then
        (if i - 1 < length syss
         then append_log env (syss ! (i - 1) @ '' ekleniyor (simule)...'') s1
         else s1)
      else if i = n - 2 then append_log env ''Player olusturuluyor (simule)...'' s1
      else append_log env ''UI olusturuluyor (simule)...'' s1)"
    unfolding simulate_step_def Let_def s1_def[symmetric] sy syss_def[symmetric]
    by (rule refl)
  have n: "n = length syss + 3" using assms(1) by (simp add: syss_def)
  have "\<exists>msg. simulate_step env n s i = append_log env msg s1 \<and>
          simulated_step_logs syss ! i = [msg]"
  proof (cases "i = 0")
    case True
    with unf show ?thesis by (simp add: simulated_step_logs_def)
  next
    case False
    show ?thesis
    proof (cases "i < length syss + 1")
      case True
      with False have idx: "i - 1 < length syss" by simp
      have "simulated_step_logs syss ! i = [syss ! (i - 1) @ '' ekleniyor (simule)...'']"
        using False idx by (simp add: simulated_step_logs_def nth_Cons' nth_append)
      with False True idx unf show ?thesis by simp
    next
      case False
      then have "i = length syss + 1 \<or> i = length syss + 2"
        using assms(2) n by arith
      then show ?thesis
      proof
        assume i: "i = length syss + 1"
        then have "simulated_step_logs syss ! i = [''Player olusturuluyor (simule)...'']"
          by (simp add: simulated_step_logs_def nth_append)
        with i n unf show ?thesis by simp
      next
        assume i: "i = length syss + 2"
        then have "simulated_step_logs syss ! i = [''UI olusturuluyor (simule)...'']"
          by (simp add: simulated_step_logs_def nth_append)
        with i n unf show ?thesis by simp
      qed
    qed
  qed
  then obtain msg where st: "simulate_step env n s i = append_log env msg s1"
    and lg: "simulated_step_logs syss ! i = [msg]" by blast
  have e2: "effect s1 (append_log env msg s1) [] [msg] []" by (rule effect_append_log)
  from effect_trans[OF e1 e2] st lg show ?thesis by (simp add: syss_def)
qed

lemma simulate_loop_effect:
  assumes "n = length (systems (prototype s)) + 3" "m \<le> n"
  shows "effect s (foldl (simulate_step env n) s [0..<m])
           (map (\<lambda>i. percent i n) [1..<m + 1])
           (concat (take m (simulated_step_logs (systems (prototype s))))) []"
  using assms(2)
proof (induction m)
  case 0
  then show ?case by (simp add: effect_refl)
next
  case (Suc m)
  define s1 where "s1 = foldl (simulate_step env n) s [0..<m]"
  from Suc have e1: "effect s s1 (map (\<lambda>i. percent i n) [1..<m + 1])
           (concat (take m (simulated_step_logs (systems (prototype s))))) []"
    by (simp add: s1_def)
  have sy: "systems (prototype s1) = systems (prototype s)" by (rule effect_systems[OF e1])
  have n1: "n = length (systems (prototype s1)) + 3" using assms(1) sy by simp
  have mn: "m < n" using Suc.prems by simp
  have e2: "effect s1 (simulate_step env n s1 m) [percent (m + 1) n]
           (simulated_step_logs (systems (prototype s)) ! m) []"
    using simulate_step_effect[OF n1 mn] sy by simp
  have len: "length (simulated_step_logs (systems (prototype s))) = n"
    using assms(1) by (simp add: simulated_step_logs_def)
  have tk: "take (Suc m) (simulated_step_logs (systems (prototype s)))
      = take m (simulated_step_logs (systems (prototype s)))
          @ [simulated_step_logs (systems (prototype s)) ! m]"
    using mn len by (simp add: take_Suc_conv_app_nth)
  from effect_trans[OF e1 e2] show ?case
    by (simp add: s1_def tk)
qed

lemma simulate_loop_frame:
  "calls (foldl (simulate_step env n) s is) = calls s \<and>
   written (foldl (simulate_step env n) s is) = written s \<and>
   connects (foldl (simulate_step env n) s is) = connects s"
  by (induction "is" arbitrary: s) (simp_all add: simulate_step_frame)


section \<open>The bridge path\<close>

lemma send_command_bridge_exn:
  "send_command env command params s = Some (Inl e, s') \<Longrightarrow> bridge_exn e"
  using send_command_raises(2) by (simp add: bridge_exn_def)

lemma await_send_command_bridge_exn:
  assumes "await_send_command env command params s = Some (Inl e, s')"
  shows "bridge_exn e"
proof -
  from assms obtain s1 where "send_command env command params s = Some (Inl e, s1)"
    by (auto simp add: await_send_command_def split: option.splits sum.splits prod.splits)
  then show ?thesis by (rule send_command_bridge_exn)
qed

lemma system_step_bridge_exn:
  assumes "system_step env n x cs s = Some (Inl e, s')"
  shows "bridge_exn e"
  using assms await_send_command_bridge_exn
  by (auto simp add: system_step_def Let_def split: option.splits sum.splits prod.splits)

lemma systems_loop_bridge_exn:
  assumes "systems_loop env n xs cs s = Some (Inl e, s')"
  shows "bridge_exn e"
  using assms
proof (induction xs arbitrary: cs s)
  case Nil
  then show ?case by simp
next
  case (Cons x xs)
  from Cons.prems obtain r1 s1 where step: "system_step env n x cs s = Some (r1, s1)"
    by (auto split: option.splits)
  show ?case
  proof (cases r1)
    case (Inl e1)
    with Cons.prems step have "system_step env n x cs s = Some (Inl e, s1)" by simp
    then show ?thesis by (rule system_step_bridge_exn)
  next
    case (Inr c1)
    with Cons.prems step have "systems_loop env n xs c1 s1 = Some (Inl e, s')" by simp
    then show ?thesis by (rule Cons.IH)
  qed
qed

lemma completion_facts:
  assumes "s' = append_log env msg (set_completedAt env (set_status ''completed'' s))"
  shows "progress_writes s' = progress_writes s" "progress (prototype s') = progress (prototype s)"
    "log_texts (prototype s') = log_texts (prototype s) @ [msg]"
    "calls s' = calls s" "written s' = written s" "connects s' = connects s"
    "status_writes s' = status_writes s @ [''completed'']"
    "status (prototype s') = ''completed''" "completedAt (prototype s') \<noteq> None"
    "same_request (prototype s) (prototype s')"
  using assms by (simp_all add: job_writes log_texts_def same_request_def)

lemma finish_steps_returns:
  assumes "finish_steps env n cs s = Some (Inr u, s')"
  shows "progress_writes s' = progress_writes s @ [percent (cs + 1) n, 100]"
    "progress (prototype s') = 100"
    "log_texts (prototype s') = log_texts (prototype s)
       @ [''Player olusturuluyor...'', ''UI olusturuluyor...'', ''Tamamlandi!'']"
    "calls s' = calls s @ [returned (''SetupPlayer'', player_params env (prototype s)),
                            returned (''SetupGameUI'', ui_params (prototype s))]"
    "status_writes s' = status_writes s @ [''completed'']"
    "status (prototype s') = ''completed''" "completedAt (prototype s') \<noteq> None"
    "same_request (prototype s) (prototype s')"
proof -
  define s1 where "s1 = append_log env ''Player olusturuluyor...'' s"
  have e1: "effect s s1 [] [''Player olusturuluyor...''] []"
    unfolding s1_def by (rule effect_append_log)
  from assms obtain v s2 where
    c1: "await_send_command env ''SetupPlayer'' (player_params env (prototype s1)) s1
           = Some (Inr v, s2)"
    by (auto simp add: finish_steps_def Let_def s1_def split: option.splits sum.splits prod.splits)
  define s3 where "s3 = set_progress (percent (cs + 1) n) s2"
  define s4 where "s4 = append_log env ''UI olusturuluyor...'' s3"
  from assms c1 obtain v' s5 where
    c2: "await_send_command env ''SetupGameUI'' (ui_params (prototype s4)) s4 = Some (Inr v', s5)"
    and s': "s' = append_log env ''Tamamlandi!''
                    (set_completedAt env (set_status ''completed'' (set_progress 100 s5)))"
    by (auto simp add: finish_steps_def Let_def s1_def[symmetric] s3_def s4_def
        split: option.splits sum.splits prod.splits)
  have p1: "player_params env (prototype s1) = player_params env (prototype s)"
    by (rule same_request_params(2)[OF effect_same_request[OF e1]])
  have e2: "effect s1 s2 [] [] [returned (''SetupPlayer'', player_params env (prototype s))]"
    using effect_await_send_command[OF c1] p1 by (simp add: returned_def)
  have e3: "effect s2 s3 [percent (cs + 1) n] [] []"
    unfolding s3_def by (rule effect_set_progress)
  have e4: "effect s3 s4 [] [''UI olusturuluyor...''] []"
    unfolding s4_def by (rule effect_append_log)
  have e14: "effect s s4 [percent (cs + 1) n]
      [''Player olusturuluyor...'', ''UI olusturuluyor...'']
      [returned (''SetupPlayer'', player_params env (prototype s))]"
    using effect_trans[OF effect_trans[OF effect_trans[OF e1 e2] e3] e4] by simp
  have p2: "ui_params (prototype s4) = ui_params (prototype s)"
    by (rule same_request_params(3)[OF effect_same_request[OF e14]])
  have e5: "effect s4 s5 [] [] [returned (''SetupGameUI'', ui_params (prototype s))]"
    using effect_await_send_command[OF c2] p2 by (simp add: returned_def)
  have e6: "effect s5 (set_progress 100 s5) [100] [] []" by (rule effect_set_progress)
  have e16: "effect s (set_progress 100 s5) [percent (cs + 1) n, 100]
      [''Player olusturuluyor...'', ''UI olusturuluyor...'']
      [returned (''SetupPlayer'', player_params env (prototype s)),
       returned (''SetupGameUI'', ui_params (prototype s))]"
    using effect_trans[OF effect_trans[OF e14 e5] e6] by simp
  note cf = completion_facts[OF s']
  from e16 cf(1) show "progress_writes s' = progress_writes s @ [percent (cs + 1) n, 100]"
    by (simp add: effect_def)
  from e16 cf(2) show "progress (prototype s') = 100" by (simp add: effect_def)
  from e16 cf(3) show "log_texts (prototype s') = log_texts (prototype s)
       @ [''Player olusturuluyor...'', ''UI olusturuluyor...'', ''Tamamlandi!'']"
    by (simp add: effect_def)
  from e16 cf(4) show "calls s' = calls s @ [returned (''SetupPlayer'', player_params env (prototype s)),
                            returned (''SetupGameUI'', ui_params (prototype s))]"
    by (simp add: effect_def)
  from e16 cf(7) show "status_writes s' = status_writes s @ [''completed'']"
    by (simp add: effect_def)
  from cf(8) show "status (prototype s') = ''completed''" .
  from cf(9) show "completedAt (prototype s') \<noteq> None" .
  from e16 cf(10) show "same_request (prototype s) (prototype s')"
    by (simp add: effect_def same_request_def)
qed

lemma finish_steps_raises:
  assumes "finish_steps env n cs s = Some (Inl e, s')"
  shows "bridge_exn e \<and>
         (effect s s' [] [''Player olusturuluyor...'']
            [raised e (''SetupPlayer'', player_params env (prototype s))]
          \<or> effect s s' [percent (cs + 1) n]
               [''Player olusturuluyor...'', ''UI olusturuluyor...'']
               [returned (''SetupPlayer'', player_params env (prototype s)),
                raised e (''SetupGameUI'', ui_params (prototype s))])"
proof -
  define s1 where "s1 = append_log env ''Player olusturuluyor...'' s"
  have e1: "effect s s1 [] [''Player olusturuluyor...''] []"
    unfolding s1_def by (rule effect_append_log)
  have p1: "player_params env (prototype s1) = player_params env (prototype s)"
    by (rule same_request_params(2)[OF effect_same_request[OF e1]])
  from assms obtain r1 s2 where
    c1: "await_send_command env ''SetupPlayer'' (player_params env (prototype s1)) s1
           = Some (r1, s2)"
    by (auto simp add: finish_steps_def Let_def s1_def split: option.splits)
  show ?thesis
  proof (cases r1)
    case (Inl e1)
    with assms c1 have eq: "e1 = e" "s2 = s'"
      by (auto simp add: finish_steps_def Let_def s1_def[symmetric])
    have "effect s1 s' [] [] [raised e (''SetupPlayer'', player_params env (prototype s))]"
      using effect_await_send_command[OF c1[unfolded Inl eq]] p1 by (simp add: raised_def)
    from effect_trans[OF e1 this] await_send_command_bridge_exn[OF c1[unfolded Inl eq]]
    show ?thesis by simp
  next
    case (Inr v)
    define s3 where "s3 = set_progress (percent (cs + 1) n) s2"
    define s4 where "s4 = append_log env ''UI olusturuluyor...'' s3"
    from assms c1 Inr have
      c2: "await_send_command env ''SetupGameUI'' (ui_params (prototype s4)) s4 = Some (Inl e, s')"
      by (auto simp add: finish_steps_def Let_def s1_def[symmetric] s3_def s4_def
          split: option.splits sum.splits prod.splits)
    have e2: "effect s1 s2 [] [] [returned (''SetupPlayer'', player_params env (prototype s))]"
      using effect_await_send_command[OF c1[unfolded Inr]] p1 by (simp add: returned_def)
    have e3: "effect s2 s3 [percent (cs + 1) n] [] []"
      unfolding s3_def by (rule effect_set_progress)
    have e4: "effect s3 s4 [] [''UI olusturuluyor...''] []"
      unfolding s4_def by (rule effect_append_log)
    have e14: "effect s s4 [percent (cs + 1) n]
        [''Player olusturuluyor...'', ''UI olusturuluyor...'']
        [returned (''SetupPlayer'', player_params env (prototype s))]"
      using effect_trans[OF effect_trans[OF effect_trans[OF e1 e2] e3] e4] by simp
    have p2: "ui_params (prototype s4) = ui_params (prototype s)"
      by (rule same_request_params(3)[OF effect_same_request[OF e14]])
    have e5: "effect s4 s' [] [] [raised e (''SetupGameUI'', ui_params (prototype s))]"
      using effect_await_send_command[OF c2] p2 by (simp add: raised_def)
    from effect_trans[OF e14 e5] await_send_command_bridge_exn[OF c2]
    show ?thesis by simp
  qed
qed


section \<open>The step sequence, step by step\<close>

lemma progress_after_0: "progress_after n 0 = []"
  by (simp add: progress_after_def)

lemma progress_after_Suc: "progress_after n (Suc k) = progress_after n k @ [percent (Suc k) n]"
  by (simp add: progress_after_def)

lemma progress_after_shift:
  "progress_after n c @ map (\<lambda>i. percent i n) [c + 1..<c + 1 + k] = progress_after n (c + k)"
proof (induction k)
  case 0
  then show ?case by simp
next
  case (Suc k)
  have "map (\<lambda>i. percent i n) [c + 1..<c + 1 + Suc k]
      = map (\<lambda>i. percent i n) [c + 1..<c + 1 + k] @ [percent (Suc (c + k)) n]"
    by simp
  with Suc show ?case by (simp add: progress_after_Suc)
qed

lemma length_progress_after: "length (progress_after n k) = k"
  by (simp add: progress_after_def)

lemma simulate_loop_progress:
  assumes "n = length (systems (prototype s)) + 3" "m \<le> n"
  shows "effect s (foldl (simulate_step env n) s [0..<m]) (progress_after n m)
           (concat (take m (simulated_step_logs (systems (prototype s))))) []"
  using simulate_loop_effect[OF assms] by (simp add: progress_after_def)

lemma length_bridge_step_logs: "length (bridge_step_logs syss) = length syss + 3"
  by (simp add: bridge_step_logs_def)

lemma length_bridge_step_calls:
  "length (bridge_step_calls env j) = length (systems j) + 3"
  by (simp add: bridge_step_calls_def)

lemma length_simulated_step_logs: "length (simulated_step_logs syss) = length syss + 3"
  by (simp add: simulated_step_logs_def)

lemma bridge_logs_scene:
  "concat (take (Suc 0) (bridge_step_logs syss)) = [''Scene olusturuluyor...'']"
  by (simp add: bridge_step_logs_def)

lemma bridge_logs_system:
  "k < length syss \<Longrightarrow>
     concat (take (Suc (Suc k)) (bridge_step_logs syss))
       = ''Scene olusturuluyor...'' # concat (map system_log (take (Suc k) syss))"
  by (simp add: bridge_step_logs_def take_map)

lemma bridge_logs_player:
  "concat (take (Suc (Suc (length syss))) (bridge_step_logs syss))
     = ''Scene olusturuluyor...'' # concat (map system_log syss) @ [''Player olusturuluyor...'']"
  by (simp add: bridge_step_logs_def)

lemma bridge_logs_ui:
  "concat (take (Suc (Suc (Suc (length syss)))) (bridge_step_logs syss))
     = ''Scene olusturuluyor...'' # concat (map system_log syss)
         @ [''Player olusturuluyor...'', ''UI olusturuluyor...'']"
  by (simp add: bridge_step_logs_def)

lemma bridge_logs_all:
  "concat (bridge_step_logs syss)
     = ''Scene olusturuluyor...'' # concat (map system_log syss)
         @ [''Player olusturuluyor...'', ''UI olusturuluyor...'']"
  by (simp add: bridge_step_logs_def)

lemma bridge_calls_scene:
  "bridge_step_calls env j ! 0 = [(''SetupSceneStructure'', scene_params)]"
  "concat (take 0 (bridge_step_calls env j)) = []"
  by (simp_all add: bridge_step_calls_def)

lemma bridge_calls_system:
  assumes "k < length (systems j)"
  shows "bridge_step_calls env j ! Suc k = system_call j (systems j ! k)"
    and "concat (take (Suc k) (bridge_step_calls env j))
       = (''SetupSceneStructure'', scene_params) # concat (map (system_call j) (take k (systems j)))"
  using assms by (simp_all add: bridge_step_calls_def nth_append take_map)

lemma bridge_calls_player:
  "bridge_step_calls env j ! Suc (length (systems j)) = [(''SetupPlayer'', player_params env j)]"
  "concat (take (Suc (length (systems j))) (bridge_step_calls env j))
     = (''SetupSceneStructure'', scene_params) # concat (map (system_call j) (systems j))"
  by (simp_all add: bridge_step_calls_def nth_append)

lemma bridge_calls_ui:
  "bridge_step_calls env j ! Suc (Suc (length (systems j))) = [(''SetupGameUI'', ui_params j)]"
  "concat (take (Suc (Suc (length (systems j)))) (bridge_step_calls env j))
     = (''SetupSceneStructure'', scene_params) # concat (map (system_call j) (systems j))
         @ [(''SetupPlayer'', player_params env j)]"
  by (simp_all add: bridge_step_calls_def nth_append)

lemma bridge_calls_all:
  "concat (bridge_step_calls env j)
     = (''SetupSceneStructure'', scene_params) # concat (map (system_call j) (systems j))
         @ [(''SetupPlayer'', player_params env j), (''SetupGameUI'', ui_params j)]"
  by (simp add: bridge_step_calls_def)


section \<open>Runs of the engine\<close>

lemma bridge_steps_prefix:
  assumes "bridge_steps env s = Some (r, s')"
  obtains (scene) e where "r = Inl e" "bridge_exn e"
      "effect s s' [] [''Scene olusturuluyor...'']
         [raised e (''SetupSceneStructure'', scene_params)]"
  | (later) s3 where
      "effect s s3 (progress_after (length (systems (prototype s)) + 3) 1)
         [''Scene olusturuluyor...'']
         [returned (''SetupSceneStructure'', scene_params)]"
      "(case systems_loop env (length (systems (prototype s)) + 3) (systems (prototype s)) 1 s3 of
          None \<Rightarrow> None
        | Some (Inl e, s4) \<Rightarrow> Some (Inl e, s4)
        | Some (Inr c, s4) \<Rightarrow> finish_steps env (length (systems (prototype s)) + 3) c s4)
       = Some (r, s')"
proof -
  define n where "n = length (systems (prototype s)) + 3"
  define s1 where "s1 = append_log env ''Scene olusturuluyor...'' s"
  have e1: "effect s s1 [] [''Scene olusturuluyor...''] []"
    unfolding s1_def by (rule effect_append_log)
  from assms obtain r1 s2 where
    c1: "await_send_command env ''SetupSceneStructure'' scene_params s1 = Some (r1, s2)"
    by (auto simp add: bridge_steps_def Let_def s1_def split: option.splits)
  show ?thesis
  proof (cases r1)
    case (Inl e)
    with assms c1 have eq: "r = Inl e" "s2 = s'"
      by (auto simp add: bridge_steps_def Let_def s1_def[symmetric])
    have "effect s1 s' [] [] [raised e (''SetupSceneStructure'', scene_params)]"
      using effect_await_send_command[OF c1[unfolded Inl eq(2)]] by (simp add: raised_def)
    from effect_trans[OF e1 this]
    have "effect s s' [] [''Scene olusturuluyor...'']
         [raised e (''SetupSceneStructure'', scene_params)]" by simp
    with eq(1) await_send_command_bridge_exn[OF c1[unfolded Inl eq(2)]] show ?thesis
      by (rule scene)
  next
    case (Inr v)
    define s3 where "s3 = set_progress (percent (0 + 1) n) s2"
    have e2: "effect s1 s2 [] [] [returned (''SetupSceneStructure'', scene_params)]"
      using effect_await_send_command[OF c1[unfolded Inr]] by (simp add: returned_def)
    have e3: "effect s2 s3 [percent (0 + 1) n] [] []"
      unfolding s3_def by (rule effect_set_progress)
    have e03: "effect s s3 (progress_after n 1) [''Scene olusturuluyor...'']
         [returned (''SetupSceneStructure'', scene_params)]"
      using effect_trans[OF effect_trans[OF e1 e2] e3] by (simp add: progress_after_def)
    have sy: "systems (prototype s3) = systems (prototype s)" by (rule effect_systems[OF e03])
    from assms c1 Inr have
      "(case systems_loop env n (systems (prototype s3)) (0 + 1) s3 of
          None \<Rightarrow> None
        | Some (Inl e, s4) \<Rightarrow> Some (Inl e, s4)
        | Some (Inr c, s4) \<Rightarrow> finish_steps env n c s4) = Some (r, s')"
      by (simp add: bridge_steps_def Let_def s1_def[symmetric] n_def[symmetric] s3_def)
    then have "(case systems_loop env n (systems (prototype s)) 1 s3 of
          None \<Rightarrow> None
        | Some (Inl e, s4) \<Rightarrow> Some (Inl e, s4)
        | Some (Inr c, s4) \<Rightarrow> finish_steps env n c s4) = Some (r, s')"
      by (simp add: sy)
    with e03 show ?thesis unfolding n_def by (rule later)
  qed
qed

lemma bridge_steps_returns:
  assumes "bridge_steps env s = Some (Inr u, s')"
  shows "progress_writes s' = progress_writes s
           @ progress_after (length (systems (prototype s)) + 3)
               (length (systems (prototype s)) + 2) @ [100]"
    "progress (prototype s') = 100"
    "log_texts (prototype s') = log_texts (prototype s)
       @ concat (bridge_step_logs (systems (prototype s))) @ [''Tamamlandi!'']"
    "calls s' = calls s @ map returned (concat (bridge_step_calls env (prototype s)))"
    "status_writes s' = status_writes s @ [''completed'']"
    "status (prototype s') = ''completed''" "completedAt (prototype s') \<noteq> None"
    "same_request (prototype s) (prototype s')"
proof -
  define n where "n = length (systems (prototype s)) + 3"
  define syss where "syss = systems (prototype s)"
  define j where "j = prototype s"
  from assms obtain s3 where
    e03: "effect s s3 (progress_after n 1) [''Scene olusturuluyor...'']
         [returned (''SetupSceneStructure'', scene_params)]"
    and rest: "(case systems_loop env n syss 1 s3 of
          None \<Rightarrow> None
        | Some (Inl e, s4) \<Rightarrow> Some (Inl e, s4)
        | Some (Inr c, s4) \<Rightarrow> finish_steps env n c s4) = Some (Inr u, s')"
    unfolding n_def syss_def by (rule bridge_steps_prefix) simp_all
  from rest obtain c s4 where loop: "systems_loop env n syss 1 s3 = Some (Inr c, s4)"
    and fin: "finish_steps env n c s4 = Some (Inr u, s')"
    by (auto split: option.splits sum.splits prod.splits)
  have sc: "system_call (prototype s3) = system_call j"
    unfolding j_def by (rule same_request_params(4)[OF effect_same_request[OF e03]])
  from systems_loop_returns[OF loop] have c: "c = Suc (length syss)"
    and e34: "effect s3 s4 (map (\<lambda>i. percent i n) [1 + 1..<1 + 1 + length syss])
           (concat (map system_log syss))
           (map returned (concat (map (system_call j) syss)))"
    by (simp_all add: sc)
  have e04: "effect s s4 (progress_after n (1 + length syss))
      (''Scene olusturuluyor...'' # concat (map system_log syss))
      (returned (''SetupSceneStructure'', scene_params)
         # map returned (concat (map (system_call j) syss)))"
    using effect_trans[OF e03 e34] by (simp only: progress_after_shift append_Cons append_Nil)
  have sr: "same_request j (prototype s4)"
    unfolding j_def by (rule effect_same_request[OF e04])
  note f = finish_steps_returns[OF fin]
  have pa: "progress_after n (1 + length syss) @ [percent (c + 1) n]
      = progress_after n (length syss + 2)"
    by (simp add: c progress_after_Suc)
  show "progress_writes s' = progress_writes s
           @ progress_after (length (systems (prototype s)) + 3)
               (length (systems (prototype s)) + 2) @ [100]"
    using e04 f(1) pa by (simp add: effect_def n_def syss_def)
  show "progress (prototype s') = 100" by (rule f(2))
  show "log_texts (prototype s') = log_texts (prototype s)
       @ concat (bridge_step_logs (systems (prototype s))) @ [''Tamamlandi!'']"
    using e04 f(3) by (simp add: effect_def bridge_logs_all syss_def)
  show "calls s' = calls s @ map returned (concat (bridge_step_calls env (prototype s)))"
    using e04 f(4) same_request_params(2,3)[OF sr]
    by (simp add: effect_def bridge_calls_all syss_def j_def)
  show "status_writes s' = status_writes s @ [''completed'']"
    using e04 f(5) by (simp add: effect_def)
  show "status (prototype s') = ''completed''" by (rule f(6))
  show "completedAt (prototype s') \<noteq> None" by (rule f(7))
  show "same_request (prototype s) (prototype s')"
    using sr f(8) by (simp add: same_request_def j_def)
qed

lemma bridge_steps_raises:
  assumes "bridge_steps env s = Some (Inl e, s')"
  shows "\<exists>k<length (systems (prototype s)) + 3.
           bridge_exn e \<and> bridge_step_calls env (prototype s) ! k \<noteq> [] \<and>
           effect s s' (progress_after (length (systems (prototype s)) + 3) k)
             (concat (take (Suc k) (bridge_step_logs (systems (prototype s)))))
             (map returned (concat (take k (bridge_step_calls env (prototype s))))
                @ map (raised e) (bridge_step_calls env (prototype s) ! k))"
proof -
  define n where "n = length (systems (prototype s)) + 3"
  define syss where "syss = systems (prototype s)"
  define j where "j = prototype s"
  have sj: "systems j = syss" by (simp add: j_def syss_def)
  let ?goal = "\<lambda>k. k < n \<and> bridge_exn e \<and> bridge_step_calls env j ! k \<noteq> [] \<and>
           effect s s' (progress_after n k)
             (concat (take (Suc k) (bridge_step_logs syss)))
             (map returned (concat (take k (bridge_step_calls env j)))
                @ map (raised e) (bridge_step_calls env j ! k))"
  have "\<exists>k. ?goal k"
  using assms
  proof (cases rule: bridge_steps_prefix)
    case (scene e')
    then have "?goal 0"
      by (simp add: n_def progress_after_0 bridge_logs_scene bridge_calls_scene)
    then show ?thesis ..
  next
    case (later s3)
    then have e03: "effect s s3 (progress_after n 1) [''Scene olusturuluyor...'']
         [returned (''SetupSceneStructure'', scene_params)]"
      and rest: "(case systems_loop env n syss 1 s3 of
          None \<Rightarrow> None
        | Some (Inl e, s4) \<Rightarrow> Some (Inl e, s4)
        | Some (Inr c, s4) \<Rightarrow> finish_steps env n c s4) = Some (Inl e, s')"
      unfolding n_def syss_def by simp_all
    have sc: "system_call (prototype s3) = system_call j"
      unfolding j_def by (rule same_request_params(4)[OF effect_same_request[OF e03]])
    from rest obtain r4 s4 where loop: "systems_loop env n syss 1 s3 = Some (r4, s4)"
      by (auto split: option.splits)
    show ?thesis
    proof (cases r4)
      case (Inl e4)
      with rest loop have eq: "e4 = e" "s4 = s'" by simp_all
      note lp = loop[unfolded Inl eq]
      from systems_loop_raises[OF lp] obtain k where k: "k < length syss"
        and ne: "system_call j (syss ! k) \<noteq> []"
        and e34: "effect s3 s' (map (\<lambda>i. percent i n) [1 + 1..<1 + 1 + k])
             (concat (map system_log (take (Suc k) syss)))
             (map returned (concat (map (system_call j) (take k syss)))
                @ map (raised e) (system_call j (syss ! k)))"
        by (auto simp add: sc)
      have e0: "effect s s' (progress_after n (1 + k))
          (''Scene olusturuluyor...'' # concat (map system_log (take (Suc k) syss)))
          (returned (''SetupSceneStructure'', scene_params)
             # map returned (concat (map (system_call j) (take k syss)))
             @ map (raised e) (system_call j (syss ! k)))"
        using effect_trans[OF e03 e34]
        by (simp only: progress_after_shift append_Cons append_Nil)
      have "?goal (Suc k)"
        using k ne e0 systems_loop_bridge_exn[OF lp] bridge_calls_system[where k=k and j=j and env=env]
        by (simp add: n_def syss_def[symmetric] sj bridge_logs_system)
      then show ?thesis ..
    next
      case (Inr c)
      with rest loop have fin: "finish_steps env n c s4 = Some (Inl e, s')" by simp
      from systems_loop_returns[OF loop[unfolded Inr]] have c: "c = Suc (length syss)"
        and e34: "effect s3 s4 (map (\<lambda>i. percent i n) [1 + 1..<1 + 1 + length syss])
           (concat (map system_log syss))
           (map returned (concat (map (system_call j) syss)))"
        by (simp_all add: sc)
      have e04: "effect s s4 (progress_after n (1 + length syss))
          (''Scene olusturuluyor...'' # concat (map system_log syss))
          (returned (''SetupSceneStructure'', scene_params)
             # map returned (concat (map (system_call j) syss)))"
        using effect_trans[OF e03 e34] by (simp only: progress_after_shift append_Cons append_Nil)
      have sr: "same_request j (prototype s4)"
        unfolding j_def by (rule effect_same_request[OF e04])
      note pp = same_request_params(2,3)[OF sr]
      from finish_steps_raises[OF fin] have be: "bridge_exn e"
        and alt: "effect s4 s' [] [''Player olusturuluyor...'']
            [raised e (''SetupPlayer'', player_params env j)]
          \<or> effect s4 s' [percent (c + 1) n]
               [''Player olusturuluyor...'', ''UI olusturuluyor...'']
               [returned (''SetupPlayer'', player_params env j),
                raised e (''SetupGameUI'', ui_params j)]"
        by (simp_all add: pp)
      from alt show ?thesis
      proof
        assume e45: "effect s4 s' [] [''Player olusturuluyor...'']
            [raised e (''SetupPlayer'', player_params env j)]"
        have "?goal (Suc (length syss))"
          using effect_trans[OF e04 e45] be bridge_calls_player[where j=j and env=env]
          by (simp add: n_def syss_def[symmetric] sj bridge_logs_player)
        then show ?thesis ..
      next
        assume e45: "effect s4 s' [percent (c + 1) n]
               [''Player olusturuluyor...'', ''UI olusturuluyor...'']
               [returned (''SetupPlayer'', player_params env j),
                raised e (''SetupGameUI'', ui_params j)]"
        have pa: "progress_after n (1 + length syss) @ [percent (c + 1) n]
            = progress_after n (Suc (Suc (length syss)))"
          by (simp add: c progress_after_Suc)
        have "?goal (Suc (Suc (length syss)))"
          using effect_trans[OF e04 e45] be bridge_calls_ui[where j=j and env=env] pa
          by (simp add: n_def syss_def[symmetric] sj bridge_logs_ui)
        then show ?thesis ..
      qed
    qed
  qed
  then show ?thesis by (simp add: n_def syss_def j_def)
qed


lemma progress_after_last:
  "0 < k \<Longrightarrow> last (p # progress_after n k) = percent k n"
  by (cases k) (simp_all add: progress_after_Suc)

lemma simulate_generation_run:
  fixes s :: state and env :: env
  defines "n \<equiv> length (systems (prototype s)) + 3"
  defines "s' \<equiv> simulate_generation env s"
  shows "progress_writes s' = progress_writes s @ progress_after n n"
    "progress (prototype s') = 100"
    "log_texts (prototype s') = log_texts (prototype s)
       @ concat (simulated_step_logs (systems (prototype s))) @ [''Tamamlandi (simule)!'']"
    "calls s' = calls s" "written s' = written s" "connects s' = connects s"
    "status_writes s' = status_writes s @ [''completed'']"
    "status (prototype s') = ''completed''" "completedAt (prototype s') \<noteq> None"
    "same_request (prototype s) (prototype s')"
proof -
  define s1 where "s1 = foldl (simulate_step env n) s [0..<n]"
  have s': "s' = append_log env ''Tamamlandi (simule)!''
                   (set_completedAt env (set_status ''completed'' s1))"
    by (simp add: s'_def simulate_generation_def Let_def s1_def n_def)
  have "effect s s1 (progress_after n n)
           (concat (take n (simulated_step_logs (systems (prototype s))))) []"
    unfolding s1_def by (rule simulate_loop_progress) (simp_all add: n_def)
  then have e: "effect s s1 (progress_after n n)
           (concat (simulated_step_logs (systems (prototype s)))) []"
    by (simp add: length_simulated_step_logs n_def)
  have fr: "calls s1 = calls s" "written s1 = written s" "connects s1 = connects s"
    using simulate_loop_frame[of env n s "[0..<n]"] by (simp_all add: s1_def)
  have npos: "0 < n" by (simp add: n_def)
  note cf = completion_facts[OF s']
  show "progress_writes s' = progress_writes s @ progress_after n n"
    using e cf(1) by (simp add: effect_def)
  show "progress (prototype s') = 100"
    using e cf(2) progress_after_last[OF npos] percent_full[OF npos] by (simp add: effect_def)
  show "log_texts (prototype s') = log_texts (prototype s)
       @ concat (simulated_step_logs (systems (prototype s))) @ [''Tamamlandi (simule)!'']"
    using e cf(3) by (simp add: effect_def)
  show "calls s' = calls s" using fr cf(4) by simp
  show "written s' = written s" using fr cf(5) by simp
  show "connects s' = connects s" using fr cf(6) by simp
  show "status_writes s' = status_writes s @ [''completed'']"
    using e cf(7) by (simp add: effect_def)
  show "status (prototype s') = ''completed''" by (rule cf(8))
  show "completedAt (prototype s') \<noteq> None" by (rule cf(9))
  show "same_request (prototype s) (prototype s')"
    using e cf(10) by (simp add: effect_def same_request_def)
qed

lemma started_facts:
  fixes s :: state and env :: env
  defines "s1 \<equiv> snd (connect env (append_log env ''Basladi'' (set_status ''generating'' s)))"
  shows "progress_writes s1 = progress_writes s" "progress (prototype s1) = progress (prototype s)"
    "log_texts (prototype s1) = log_texts (prototype s) @ [''Basladi'']"
    "calls s1 = calls s" "written s1 = written s"
    "status_writes s1 = status_writes s @ [''generating'']"
    "completedAt (prototype s1) = completedAt (prototype s)"
    "same_request (prototype s) (prototype s1)"
    "fst (connect env (append_log env ''Basladi'' (set_status ''generating'' s)))
       = (connect_outcome env (tick s) = ConnOk)"
  by (simp_all add: s1_def connect_frame connect_result job_writes log_texts_def same_request_def)

lemma generate_simulated:
  assumes "connect_outcome env (tick s) \<noteq> ConnOk"
  shows "\<exists>s'. generate env s = Some s' \<and> simulated_run s s'"
proof -
  define s0 where "s0 = append_log env ''Basladi'' (set_status ''generating'' s)"
  define s1 where "s1 = snd (connect env s0)"
  define s' where "s' = simulate_generation env s1"
  note st = started_facts[where env=env and s=s, folded s0_def s1_def]
  have "\<not> fst (connect env s0)" using st(9) assms by simp
  then have "connect env s0 = (False, s1)" by (simp add: s1_def prod_eq_iff)
  then have g: "generate env s = Some s'"
    by (simp add: generate_def try_block_def s0_def[symmetric] s'_def)
  have sy: "systems (prototype s1) = systems (prototype s)"
    using st(8) by (simp add: same_request_def)
  note sg = simulate_generation_run[where env=env and s=s1, folded s'_def, unfolded sy]
  have "simulated_run s s'"
    unfolding simulated_run_def finished_def
    using st sg by (simp add: same_request_def)
  with g show ?thesis by blast
qed

lemma generate_bridge:
  assumes "connect_outcome env (tick s) = ConnOk" "generate env s = Some s'"
  shows "completed_run env s s' \<or> (\<exists>k e. failed_run env s s' k e)"
proof -
  define s0 where "s0 = append_log env ''Basladi'' (set_status ''generating'' s)"
  define s1 where "s1 = snd (connect env s0)"
  note st = started_facts[where env=env and s=s, folded s0_def s1_def]
  have "fst (connect env s0)" using st(9) assms(1) by simp
  then have "connect env s0 = (True, s1)" by (simp add: s1_def prod_eq_iff)
  with assms(2) obtain r s2 where b: "bridge_steps env s1 = Some (r, s2)"
    and fin: "(case r of Inr u \<Rightarrow> Some s2
               | Inl e \<Rightarrow> Some (append_log env (''HATA: '' @ exn_str env e)
                                  (set_status ''failed'' s2))) = Some s'"
    by (auto simp add: generate_def try_block_def s0_def[symmetric]
        split: option.splits sum.splits prod.splits)
  have sy: "systems (prototype s1) = systems (prototype s)"
    using st(8) by (simp add: same_request_def)
  have bc: "bridge_step_calls env (prototype s1) = bridge_step_calls env (prototype s)"
    by (rule same_request_params(5)[OF st(8)])
  show ?thesis
  proof (cases r)
    case (Inr u)
    with fin have eq: "s2 = s'" by simp
    note br = bridge_steps_returns[OF b[unfolded Inr eq], unfolded sy bc]
    have "completed_run env s s'"
      unfolding completed_run_def finished_def
      using st br by (simp add: same_request_def)
    then show ?thesis ..
  next
    case (Inl e)
    with fin have s': "s' = append_log env (''HATA: '' @ exn_str env e) (set_status ''failed'' s2)"
      by simp
    from bridge_steps_raises[OF b[unfolded Inl], unfolded sy bc]
    obtain k where k: "k < length (systems (prototype s)) + 3" and be: "bridge_exn e"
      and ne: "bridge_step_calls env (prototype s) ! k \<noteq> []"
      and e12: "effect s1 s2 (progress_after (length (systems (prototype s)) + 3) k)
             (concat (take (Suc k) (bridge_step_logs (systems (prototype s)))))
             (map returned (concat (take k (bridge_step_calls env (prototype s))))
                @ map (raised e) (bridge_step_calls env (prototype s) ! k))"
      by blast
    have "failed_run env s s' k e"
      unfolding failed_run_def
      using st k be ne e12
      by (simp add: s' effect_def same_request_def job_writes log_texts_def)
    then show ?thesis by blast
  qed
qed


section \<open>The claims about a run\<close>

lemma generate_cases:
  assumes "generate env s = Some s'"
  shows "(connect_outcome env (tick s) \<noteq> ConnOk \<and> simulated_run s s')
       \<or> (connect_outcome env (tick s) = ConnOk \<and> completed_run env s s')
       \<or> (connect_outcome env (tick s) = ConnOk \<and> (\<exists>k e. failed_run env s s' k e))"
proof (cases "connect_outcome env (tick s) = ConnOk")
  case True
  with generate_bridge[OF True assms] show ?thesis by blast
next
  case False
  from generate_simulated[OF False] assms have "simulated_run s s'" by auto
  with False show ?thesis by blast
qed

lemma progress_after_full:
  "progress_after (length syss + 3) (length syss + 2) @ [100]
     = progress_after (length syss + 3) (length syss + 3)"
proof -
  have "length syss + 3 = Suc (length syss + 2)" by simp
  then have "progress_after (length syss + 3) (length syss + 3)
      = progress_after (length syss + 3) (length syss + 2)
          @ [percent (length syss + 3) (length syss + 3)]"
    by (metis progress_after_Suc)
  then show ?thesis by (simp add: percent_full)
qed

lemma simulated_logs_flat:
  "concat (simulated_step_logs syss)
     = [''Scene olusturuluyor (simule)...'']
         @ map (\<lambda>system_id. system_id @ '' ekleniyor (simule)...'') syss
         @ [''Player olusturuluyor (simule)...'', ''UI olusturuluyor (simule)...'']"
  by (simp add: simulated_step_logs_def)

lemma generate_progress:
  assumes "generate env s = Some s'"
  shows "\<exists>k\<le>length (systems (prototype s)) + 3.
           progress_writes s' = progress_writes s
             @ progress_after (length (systems (prototype s)) + 3) k \<and>
           (status (prototype s') = ''completed'' \<longrightarrow> k = length (systems (prototype s)) + 3) \<and>
           (status (prototype s') \<noteq> ''completed'' \<longrightarrow>
              status (prototype s') = ''failed'' \<and> k < length (systems (prototype s)) + 3) \<and>
           progress (prototype s') = last (progress (prototype s)
              # progress_after (length (systems (prototype s)) + 3) k)"
proof -
  define n where "n = length (systems (prototype s)) + 3"
  let ?P = "\<lambda>k. k \<le> n \<and> progress_writes s' = progress_writes s @ progress_after n k \<and>
           (status (prototype s') = ''completed'' \<longrightarrow> k = n) \<and>
           (status (prototype s') \<noteq> ''completed'' \<longrightarrow>
              status (prototype s') = ''failed'' \<and> k < n) \<and>
           progress (prototype s') = last (progress (prototype s) # progress_after n k)"
  have npos: "0 < n" by (simp add: n_def)
  have full: "last (progress (prototype s) # progress_after n n) = 100"
    using progress_after_last[OF npos] percent_full[OF npos] by simp
  have allsteps: "?P n" if a: "progress_writes s' = progress_writes s @ progress_after n n"
    and b: "status (prototype s') = ''completed''" and c: "progress (prototype s') = 100"
    using a b c full by simp
  consider (sim) "simulated_run s s'" | (ok) "completed_run env s s'"
    | (bad) k e where "failed_run env s s' k e"
    using generate_cases[OF assms] by blast
  then have "\<exists>k. ?P k"
  proof cases
    case sim
    have "?P n"
    proof (rule allsteps)
      show "progress_writes s' = progress_writes s @ progress_after n n"
        using sim by (simp add: simulated_run_def n_def)
      show "status (prototype s') = ''completed''"
        using sim by (simp add: simulated_run_def finished_def)
      show "progress (prototype s') = 100"
        using sim by (simp add: simulated_run_def finished_def)
    qed
    then show ?thesis ..
  next
    case ok
    have "?P n"
    proof (rule allsteps)
      show "progress_writes s' = progress_writes s @ progress_after n n"
        using ok progress_after_full[of "systems (prototype s)"]
        by (simp add: completed_run_def n_def)
      show "status (prototype s') = ''completed''"
        using ok by (simp add: completed_run_def finished_def)
      show "progress (prototype s') = 100"
        using ok by (simp add: completed_run_def finished_def)
    qed
    then show ?thesis ..
  next
    case bad
    then have "k < n" "progress_writes s' = progress_writes s @ progress_after n k"
      "status (prototype s') = ''failed''"
      "progress (prototype s') = last (progress (prototype s) # progress_after n k)"
      by (simp_all add: failed_run_def n_def)
    then have "?P k" by simp
    then show ?thesis ..
  qed
  then show ?thesis unfolding n_def by blast
qed

text \<open>
  C3. If the connect at the start of the engine fails, the run returns, and with status
  \<open>completed\<close>, a completion time and progress 100. It makes no call of \<open>send_command\<close> and
  hands nothing to the socket. It assigns the progress once per step, \<open>len(systems) + 3\<close>
  times, the \<open>i\<close>-th value being \<^verbatim>\<open>int((i / total_steps) * 100)\<close>: the values every completed
  bridge-driven run of the same job assigns. It logs the start, then one line marked
  \<^verbatim>\<open>(simule)\<close> per step (scene, each requested key in order, player, UI), then the
  completion line.
\<close>

theorem simulated_path_completes:
  assumes "connect_outcome env (tick s) \<noteq> ConnOk"
  shows "\<exists>s'. generate env s = Some s'
    \<and> status (prototype s') = ''completed''
    \<and> status_writes s' = status_writes s @ [''generating'', ''completed'']
    \<and> completedAt (prototype s') \<noteq> None
    \<and> progress (prototype s') = 100
    \<and> calls s' = calls s \<and> written s' = written s
    \<and> progress_writes s' = progress_writes s
         @ map (\<lambda>i. percent i (length (systems (prototype s)) + 3))
             [1..<length (systems (prototype s)) + 3 + 1]
    \<and> (\<forall>env' t. connect_outcome env' (tick s) = ConnOk \<and> generate env' s = Some t
           \<and> status (prototype t) = ''completed'' \<longrightarrow> progress_writes t = progress_writes s')
    \<and> log_texts (prototype s') = log_texts (prototype s)
         @ [''Basladi'', ''Scene olusturuluyor (simule)...'']
         @ map (\<lambda>system_id. system_id @ '' ekleniyor (simule)...'') (systems (prototype s))
         @ [''Player olusturuluyor (simule)...'', ''UI olusturuluyor (simule)...'',
            ''Tamamlandi (simule)!'']"
proof -
  from generate_simulated[OF assms] obtain s' where g: "generate env s = Some s'"
    and r: "simulated_run s s'" by blast
  have pw: "progress_writes s' = progress_writes s
      @ progress_after (length (systems (prototype s)) + 3) (length (systems (prototype s)) + 3)"
    using r by (simp add: simulated_run_def)
  have same: "\<forall>env' t. connect_outcome env' (tick s) = ConnOk \<and> generate env' s = Some t
           \<and> status (prototype t) = ''completed'' \<longrightarrow> progress_writes t = progress_writes s'"
  proof (intro allI impI, elim conjE)
    fix env' t
    assume ok: "connect_outcome env' (tick s) = ConnOk" and gt: "generate env' s = Some t"
      and st: "status (prototype t) = ''completed''"
    from generate_bridge[OF ok gt] st have "completed_run env' s t"
      by (auto simp add: failed_run_def)
    then show "progress_writes t = progress_writes s'"
      using pw progress_after_full[of "systems (prototype s)"]
      by (simp add: completed_run_def)
  qed
  from r have "status (prototype s') = ''completed''
    \<and> status_writes s' = status_writes s @ [''generating'', ''completed'']
    \<and> completedAt (prototype s') \<noteq> None
    \<and> progress (prototype s') = 100
    \<and> calls s' = calls s \<and> written s' = written s
    \<and> progress_writes s' = progress_writes s
         @ map (\<lambda>i. percent i (length (systems (prototype s)) + 3))
             [1..<length (systems (prototype s)) + 3 + 1]
    \<and> log_texts (prototype s') = log_texts (prototype s)
         @ [''Basladi'', ''Scene olusturuluyor (simule)...'']
         @ map (\<lambda>system_id. system_id @ '' ekleniyor (simule)...'') (systems (prototype s))
         @ [''Player olusturuluyor (simule)...'', ''UI olusturuluyor (simule)...'',
            ''Tamamlandi (simule)!'']"
    by (simp add: simulated_run_def finished_def simulated_logs_flat progress_after_def)
  with g same show ?thesis by blast
qed

lemma percent_fifths: "map (\<lambda>i. percent i 5) [Suc 0..<6] = [20, 40, 60, 80, 100]"
  by code_simp

theorem simulated_path_completes_witness:
  "connect_outcome env_down (tick (demo_state [''health'', ''mana''])) \<noteq> ConnOk
   \<and> (\<exists>s'. generate env_down (demo_state [''health'', ''mana'']) = Some s'
        \<and> status (prototype s') = ''completed''
        \<and> progress (prototype s') = 100
        \<and> calls s' = []
        \<and> progress_writes s' = [20, 40, 60, 80, 100]
        \<and> log_texts (prototype s') =
            [''Basladi'', ''Scene olusturuluyor (simule)...'', ''health ekleniyor (simule)...'',
             ''mana ekleniyor (simule)...'', ''Player olusturuluyor (simule)...'',
             ''UI olusturuluyor (simule)...'', ''Tamamlandi (simule)!''])"
proof -
  have h: "connect_outcome env_down (tick (demo_state [''health'', ''mana''])) \<noteq> ConnOk"
    by (simp add: env_down_def)
  from simulated_path_completes[OF h] obtain s' where
    "generate env_down (demo_state [''health'', ''mana'']) = Some s'"
    "status (prototype s') = ''completed''" "progress (prototype s') = 100"
    "calls s' = calls (demo_state [''health'', ''mana''])"
    "progress_writes s' = progress_writes (demo_state [''health'', ''mana''])
         @ map (\<lambda>i. percent i (length (systems (prototype (demo_state [''health'', ''mana'']))) + 3))
             [1..<length (systems (prototype (demo_state [''health'', ''mana'']))) + 3 + 1]"
    "log_texts (prototype s') = log_texts (prototype (demo_state [''health'', ''mana'']))
         @ [''Basladi'', ''Scene olusturuluyor (simule)...'']
         @ map (\<lambda>system_id. system_id @ '' ekleniyor (simule)...'')
             (systems (prototype (demo_state [''health'', ''mana''])))
         @ [''Player olusturuluyor (simule)...'', ''UI olusturuluyor (simule)...'',
            ''Tamamlandi (simule)!'']"
    by blast
  then have "generate env_down (demo_state [''health'', ''mana'']) = Some s'
        \<and> status (prototype s') = ''completed''
        \<and> progress (prototype s') = 100
        \<and> calls s' = []
        \<and> progress_writes s' = [20, 40, 60, 80, 100]
        \<and> log_texts (prototype s') =
            [''Basladi'', ''Scene olusturuluyor (simule)...'', ''health ekleniyor (simule)...'',
             ''mana ekleniyor (simule)...'', ''Player olusturuluyor (simule)...'',
             ''UI olusturuluyor (simule)...'', ''Tamamlandi (simule)!'']"
    by (simp add: demo_state_def demo_job_def task_state_def log_texts_def percent_fifths)
  with h show ?thesis by blast
qed


lemma empty_request_progress: "progress_after 3 3 = [33, 66, 100]"
  by code_simp

text \<open>
  C5. Whatever path a run takes, the values it assigns to the progress are
  \<^verbatim>\<open>int((i / total_steps) * 100)\<close> for \<open>i = 1, 2, ...\<close> with
  \<open>total_steps = len(systems) + 3\<close>; a run that ends \<open>completed\<close> has assigned exactly
  \<open>len(systems) + 3\<close> of them. With no requested system the total is 3 and a completed run
  assigns 33, 66, 100.
\<close>

theorem total_step_count:
  assumes "generate env s = Some s'"
  shows "\<exists>k\<le>length (systems (prototype s)) + 3.
      progress_writes s' = progress_writes s
        @ map (\<lambda>i. percent i (length (systems (prototype s)) + 3)) [1..<k + 1]
      \<and> (status (prototype s') = ''completed'' \<longrightarrow> k = length (systems (prototype s)) + 3)
      \<and> (systems (prototype s) = [] \<and> status (prototype s') = ''completed'' \<longrightarrow>
            progress_writes s' = progress_writes s @ [33, 66, 100])"
proof -
  from generate_progress[OF assms] obtain k where k: "k \<le> length (systems (prototype s)) + 3"
    and pw: "progress_writes s' = progress_writes s
             @ progress_after (length (systems (prototype s)) + 3) k"
    and co: "status (prototype s') = ''completed'' \<longrightarrow> k = length (systems (prototype s)) + 3"
    by blast
  have "systems (prototype s) = [] \<and> status (prototype s') = ''completed'' \<longrightarrow>
            progress_writes s' = progress_writes s @ [33, 66, 100]"
  proof
    assume a: "systems (prototype s) = [] \<and> status (prototype s') = ''completed''"
    with co have "k = 3" by simp
    with pw a show "progress_writes s' = progress_writes s @ [33, 66, 100]"
      by (simp add: empty_request_progress)
  qed
  with k pw co show ?thesis unfolding progress_after_def by blast
qed

theorem total_step_count_witness:
  "generate env_down (demo_state []) = Some (the (generate env_down (demo_state [])))
   \<and> status (prototype (the (generate env_down (demo_state [])))) = ''completed''
   \<and> systems (prototype (demo_state [])) = []
   \<and> progress_writes (the (generate env_down (demo_state []))) = [33, 66, 100]"
proof -
  have h: "connect_outcome env_down (tick (demo_state [])) \<noteq> ConnOk"
    by (simp add: env_down_def)
  from generate_simulated[OF h] obtain s' where g: "generate env_down (demo_state []) = Some s'"
    and r: "simulated_run (demo_state []) s'" by blast
  have st: "status (prototype s') = ''completed''"
    using r by (simp add: simulated_run_def finished_def)
  have sy: "systems (prototype (demo_state [])) = []"
    by (simp add: demo_state_def demo_job_def task_state_def)
  have pw0: "progress_writes (demo_state []) = []"
    by (simp add: demo_state_def task_state_def)
  from total_step_count[OF g] sy st pw0 have "progress_writes s' = [33, 66, 100]" by auto
  with g st sy show ?thesis by simp
qed

lemma bridge_step_calls_short:
  assumes "k < length (systems j) + 3" "bridge_step_calls env j ! k \<noteq> []"
  shows "\<exists>c. bridge_step_calls env j ! k = [c]"
proof -
  have "\<forall>x\<in>set (bridge_step_calls env j). length x \<le> 1"
    by (auto simp add: bridge_step_calls_def system_call_def split: option.splits)
  moreover have "bridge_step_calls env j ! k \<in> set (bridge_step_calls env j)"
    using assms(1) by (simp add: length_bridge_step_calls)
  ultimately have "length (bridge_step_calls env j ! k) \<le> 1" by blast
  with assms(2) show ?thesis
    by (cases "bridge_step_calls env j ! k") (auto simp add: length_Suc_conv)
qed

lemma failing_call_is_last:
  assumes "generate env s = Some s'" "calls s' = calls s @ cs" "(c, p, Some e) \<in> set cs"
  shows "\<exists>k. failed_run env s s' k e \<and>
           cs = map returned (concat (take k (bridge_step_calls env (prototype s))))
                  @ [(c, p, Some e)]"
proof -
  consider (sim) "simulated_run s s'" | (ok) "completed_run env s s'"
    | (bad) k e' where "failed_run env s s' k e'"
    using generate_cases[OF assms(1)] by blast
  then show ?thesis
  proof cases
    case sim
    then have "calls s' = calls s" by (simp add: simulated_run_def)
    with assms(2,3) show ?thesis by simp
  next
    case ok
    then have "cs = map returned (concat (bridge_step_calls env (prototype s)))"
      using assms(2) by (simp add: completed_run_def)
    with assms(3) show ?thesis by (auto simp add: returned_def)
  next
    case bad
    then have k: "k < length (systems (prototype s)) + 3"
      and ne: "bridge_step_calls env (prototype s) ! k \<noteq> []"
      and cs: "cs = map returned (concat (take k (bridge_step_calls env (prototype s))))
                  @ map (raised e') (bridge_step_calls env (prototype s) ! k)"
      using assms(2) by (simp_all add: failed_run_def)
    from bridge_step_calls_short[OF k ne] obtain c0 where
      c0: "bridge_step_calls env (prototype s) ! k = [c0]" by blast
    from assms(3) cs c0 have "(c, p, Some e) = raised e' c0"
      by (auto simp add: returned_def)
    then have "e' = e" "raised e' c0 = (c, p, Some e)" by (simp_all add: raised_def)
    with bad cs c0 show ?thesis by auto
  qed
qed

text \<open>
  C4. If any call of \<open>send_command\<close> in a run raises (so the initial connect has succeeded),
  the run ends at once: the raising call is the last call of the run and every call before
  it returned; the status becomes \<open>failed\<close> (written once, after \<open>generating\<close>); the
  completion time is what it was (unset for a created job); the progress is the value the
  last completed step assigned and the log holds the start line and the lines of the steps
  up to the failing one, followed by exactly one line \<^verbatim>\<open>HATA: \<close> with \<^verbatim>\<open>str(e)\<close> of the
  exception raised, which is one of the two exceptions of \<open>send_command\<close>.
\<close>

theorem command_failure_aborts:
  assumes "generate env s = Some s'" "calls s' = calls s @ cs" "(c, p, Some e) \<in> set cs"
  shows "status (prototype s') = ''failed''
    \<and> status_writes s' = status_writes s @ [''generating'', ''failed'']
    \<and> completedAt (prototype s') = completedAt (prototype s)
    \<and> (\<exists>before. cs = before @ [(c, p, Some e)] \<and> (\<forall>x\<in>set before. snd (snd x) = None))
    \<and> (e = HTTPException 503 ''Unity Bridge baglantisi yok''
         \<or> (\<exists>cause. e = HTTPException 500 (''Unity komut hatasi: '' @ cause)))
    \<and> (\<exists>k<length (systems (prototype s)) + 3.
          progress_writes s' = progress_writes s
            @ map (\<lambda>i. percent i (length (systems (prototype s)) + 3)) [1..<k + 1]
        \<and> progress (prototype s') =
            last (progress (prototype s)
                    # map (\<lambda>i. percent i (length (systems (prototype s)) + 3)) [1..<k + 1])
        \<and> log_texts (prototype s') =
            log_texts (prototype s) @ [''Basladi'']
              @ concat (take (Suc k) (bridge_step_logs (systems (prototype s))))
              @ [''HATA: '' @ exn_str env e])"
proof -
  from failing_call_is_last[OF assms] obtain k where f: "failed_run env s s' k e"
    and cs: "cs = map returned (concat (take k (bridge_step_calls env (prototype s))))
                  @ [(c, p, Some e)]"
    by blast
  have 1: "status (prototype s') = ''failed''"
    "status_writes s' = status_writes s @ [''generating'', ''failed'']"
    "completedAt (prototype s') = completedAt (prototype s)"
    using f by (simp_all add: failed_run_def)
  have 2: "\<exists>before. cs = before @ [(c, p, Some e)] \<and> (\<forall>x\<in>set before. snd (snd x) = None)"
  proof (intro exI conjI)
    show "cs = map returned (concat (take k (bridge_step_calls env (prototype s))))
                  @ [(c, p, Some e)]" by (rule cs)
    show "\<forall>x\<in>set (map returned (concat (take k (bridge_step_calls env (prototype s))))).
            snd (snd x) = None"
      by (auto simp add: returned_def)
  qed
  have 3: "e = HTTPException 503 ''Unity Bridge baglantisi yok''
         \<or> (\<exists>cause. e = HTTPException 500 (''Unity komut hatasi: '' @ cause))"
    using f by (simp add: failed_run_def bridge_exn_def)
  have 4: "\<exists>k<length (systems (prototype s)) + 3.
          progress_writes s' = progress_writes s
            @ map (\<lambda>i. percent i (length (systems (prototype s)) + 3)) [1..<k + 1]
        \<and> progress (prototype s') =
            last (progress (prototype s)
                    # map (\<lambda>i. percent i (length (systems (prototype s)) + 3)) [1..<k + 1])
        \<and> log_texts (prototype s') =
            log_texts (prototype s) @ [''Basladi'']
              @ concat (take (Suc k) (bridge_step_logs (systems (prototype s))))
              @ [''HATA: '' @ exn_str env e]"
  proof (intro exI conjI)
    show "k < length (systems (prototype s)) + 3" using f by (simp add: failed_run_def)
    show "progress_writes s' = progress_writes s
            @ map (\<lambda>i. percent i (length (systems (prototype s)) + 3)) [1..<k + 1]"
      using f by (simp add: failed_run_def progress_after_def)
    show "progress (prototype s') =
            last (progress (prototype s)
                    # map (\<lambda>i. percent i (length (systems (prototype s)) + 3)) [1..<k + 1])"
      using f by (simp add: failed_run_def progress_after_def)
    show "log_texts (prototype s') =
            log_texts (prototype s) @ [''Basladi'']
              @ concat (take (Suc k) (bridge_step_logs (systems (prototype s))))
              @ [''HATA: '' @ exn_str env e]"
      using f by (simp add: failed_run_def)
  qed
  from 1 2 3 4 show ?thesis by blast
qed


lemma scene_failure_run:
  "generate (env_drop 1) (demo_state []) \<noteq> None"
  "calls (the (generate (env_drop 1) (demo_state []))) =
     [(''SetupSceneStructure'', scene_params,
       Some (HTTPException 500 ''Unity komut hatasi: Broken pipe''))]"
  by code_simp+

theorem command_failure_aborts_witness:
  "generate (env_drop 1) (demo_state []) = Some (the (generate (env_drop 1) (demo_state [])))
   \<and> calls (the (generate (env_drop 1) (demo_state []))) =
       calls (demo_state [])
         @ [(''SetupSceneStructure'', scene_params,
             Some (HTTPException 500 ''Unity komut hatasi: Broken pipe''))]
   \<and> (''SetupSceneStructure'', scene_params,
        Some (HTTPException 500 ''Unity komut hatasi: Broken pipe''))
       \<in> set [(''SetupSceneStructure'', scene_params,
                Some (HTTPException 500 ''Unity komut hatasi: Broken pipe''))]
   \<and> status (prototype (the (generate (env_drop 1) (demo_state [])))) = ''failed''
   \<and> completedAt (prototype (the (generate (env_drop 1) (demo_state [])))) = None"
proof -
  define s' where "s' = the (generate (env_drop 1) (demo_state []))"
  have g: "generate (env_drop 1) (demo_state []) = Some s'"
    using scene_failure_run(1) by (simp add: s'_def)
  have c: "calls s' = calls (demo_state [])
         @ [(''SetupSceneStructure'', scene_params,
             Some (HTTPException 500 ''Unity komut hatasi: Broken pipe''))]"
    using scene_failure_run(2) by (simp add: s'_def demo_state_def task_state_def)
  have m: "(''SetupSceneStructure'', scene_params,
        Some (HTTPException 500 ''Unity komut hatasi: Broken pipe''))
       \<in> set [(''SetupSceneStructure'', scene_params,
                Some (HTTPException 500 ''Unity komut hatasi: Broken pipe''))]"
    by simp
  have n: "completedAt (prototype (demo_state [])) = None"
    by (simp add: demo_state_def demo_job_def task_state_def)
  from command_failure_aborts[OF g c m] n
  have "status (prototype s') = ''failed''" "completedAt (prototype s') = None"
    by simp_all
  with g c m show ?thesis unfolding s'_def by blast
qed

end
